theory Spec2Isabelle
  imports Complex_Main "HOL-Library.AList" "HOL-Library.Multiset" "HOL-Library.Log_Nat"
begin

section \<open>Roles and game types (src/shared/game.ts)\<close>

datatype RoleKey = A | B | C | D

definition roleKeys :: "RoleKey list" where
  "roleKeys = [A, B, C, D]"

text \<open>
  The type \<open>Player\<close>. The field \<open>id\<close> is written \<open>id'\<close>. The server's object
  literal never sets \<open>ready\<close>, so the field is optional here; \<open>roleKey\<close> is optional in
  the source (\<open>undefined\<close> is \<open>None\<close>). \<open>joinedAt\<close> holds a value of \<open>Date.now()\<close>,
  an integer number of milliseconds.
\<close>

record Player =
  id' :: string
  name :: string
  ready :: "bool option"
  isHost :: bool
  joinedAt :: int
  roleKey :: "RoleKey option"

datatype GameStatus = Lobby | Assigned

text \<open>
  A JavaScript object used as a dictionary is the list of its own enumerable properties,
  in the order \<open>Object.keys\<close> reports them. \<open>RoleConfig\<close> always holds the four role
  keys (it starts as \<open>defaultRoleConfig\<close> and only these keys are written), so it is a
  total function. The static field \<open>rolesCatalog\<close> is never written and no statement
  below reads it; it is left out of the record.
\<close>

type_synonym 'a object = "(string \<times> 'a) list"

record GameState =
  roomId :: string
  hostId :: "string option"
  status :: GameStatus
  players :: "Player object"
  roleConfig :: "RoleKey \<Rightarrow> int"
  assignedAt :: "int option"

definition defaultRoleConfig :: "RoleKey \<Rightarrow> int" where
  "defaultRoleConfig = (\<lambda>key. 0)"

subsection \<open>Property access on a plain object\<close>

text \<open>
  \<open>obj[k]\<close> on an object created by \<open>{}\<close> finds an own property, or else a member
  of \<open>Object.prototype\<close> (a function or an object: truthy, and without any of the
  fields of a player), or else \<open>undefined\<close>.
\<close>

definition object_prototype_keys :: "string list" where
  "object_prototype_keys =
     [''constructor'', ''__proto__'', ''hasOwnProperty'', ''isPrototypeOf'',
      ''propertyIsEnumerable'', ''toLocaleString'', ''toString'', ''valueOf'',
      ''__defineGetter__'', ''__defineSetter__'', ''__lookupGetter__'',
      ''__lookupSetter__'']"

datatype 'a property = Undefined | Own 'a | Inherited

definition obj_get :: "'a object \<Rightarrow> string \<Rightarrow> 'a property" where
  "obj_get obj k =
     (case map_of obj k of
        Some v \<Rightarrow> Own v
      | None \<Rightarrow> if k \<in> set object_prototype_keys then Inherited else Undefined)"

text \<open>
  \<open>Object.keys\<close> lists the array-index keys first (canonical decimal strings of the
  integers up to \<open>2^32 - 2\<close>), in ascending numeric order, and then the other string
  keys in the order of their creation. \<open>obj[k] = v\<close> overwrites an own property where
  it stands and puts a new one at its place in that order. It is only ever executed for
  keys that are not members of \<open>Object.prototype\<close>.
\<close>

definition is_digit :: "char \<Rightarrow> bool" where
  "is_digit c = (48 \<le> (of_char c :: nat) \<and> (of_char c :: nat) \<le> 57)"

definition index_value :: "string \<Rightarrow> nat" where
  "index_value k = foldl (\<lambda>n c. 10 * n + (of_char c - 48)) 0 k"

definition is_array_index :: "string \<Rightarrow> bool" where
  "is_array_index k =
     (k \<noteq> [] \<and> list_all is_digit k \<and> (k = ''0'' \<or> hd k \<noteq> CHR ''0'') \<and>
      index_value k \<le> 4294967294)"

fun insert_index :: "string \<Rightarrow> 'a \<Rightarrow> 'a object \<Rightarrow> 'a object" where
  "insert_index k v [] = [(k, v)]"
| "insert_index k v ((k', v') # rest) =
     (if is_array_index k' \<and> index_value k' < index_value k
      then (k', v') # insert_index k v rest
      else (k, v) # (k', v') # rest)"

definition obj_set :: "string \<Rightarrow> 'a \<Rightarrow> 'a object \<Rightarrow> 'a object" where
  "obj_set k v obj =
     (if k \<in> fst ` set obj \<or> \<not> is_array_index k then AList.update k v obj
      else insert_index k v obj)"

text \<open>
  \<open>obj[k].field = x\<close> mutates the object stored under the own key \<open>k\<close>; every
  reference to that object sees the change. Each player object is stored under exactly
  one key, which serves as its address.
\<close>

definition obj_upd :: "string \<Rightarrow> ('a \<Rightarrow> 'a) \<Rightarrow> 'a object \<Rightarrow> 'a object" where
  "obj_upd k f obj = map (\<lambda>(k', v). if k' = k then (k', f v) else (k', v)) obj"

subsection \<open>Utility helpers\<close>

definition buildDeck :: "(RoleKey \<Rightarrow> int) \<Rightarrow> RoleKey list" where
  "buildDeck config = concat (map (\<lambda>key. replicate (nat (config key)) key) roleKeys)"

definition totalRoles :: "(RoleKey \<Rightarrow> int) \<Rightarrow> int" where
  "totalRoles config = foldl (\<lambda>sum key. sum + config key) 0 roleKeys"

text \<open>
  A JavaScript number is an IEEE 754 double; the finite doubles are rational numbers.
  \<open>round_double\<close> is the rounding of an exact result to the nearest double, ties to
  the even significand: 53 significant bits, exponents from \<open>-1022\<close> (below that the
  spacing stays \<open>2^-1074\<close>). \<open>ilog2 x\<close> is the exponent \<open>e\<close> with
  \<open>2^e \<le> x < 2^(e+1)\<close>. Overflow to infinity is left out: the products rounded
  below are smaller than an array length.
\<close>

definition ilog2 :: "rat \<Rightarrow> int" where
  "ilog2 x =
     (case quotient_of x of
        (p, q) \<Rightarrow> let d = bitlen p - bitlen q in if 2 powi d \<le> x then d else d - 1)"

definition round_half_even :: "rat \<Rightarrow> int" where
  "round_half_even y =
     (let f = \<lfloor>y\<rfloor>; d = y - of_int f
      in if d < 1 / 2 then f else if 1 / 2 < d then f + 1 else if even f then f else f + 1)"

definition round_double :: "rat \<Rightarrow> rat" where
  "round_double x =
     (if x = 0 then 0
      else let e = max (ilog2 \<bar>x\<bar>) (- 1022);
               u = 2 powi (e - 52)
           in sgn x * (of_int (round_half_even (\<bar>x\<bar> / u)) * u))"

definition is_double :: "rat \<Rightarrow> bool" where
  "is_double r = (round_double r = r \<and> \<bar>r\<bar> < 2 ^ 1024)"

text \<open>
  \<open>shuffle\<close>: the random source \<open>rng\<close> is the sequence of the values its successive
  calls return, doubles in \<open>[0, 1)\<close> by the contract of \<open>Math.random\<close>. The product
  \<open>rng() * (i + 1)\<close> is the exact product rounded to a double, and \<open>Math.floor\<close> of
  a double is exact. Under that contract both indices of the swap are inside the array.
\<close>

definition swap :: "'a list \<Rightarrow> nat \<Rightarrow> nat \<Rightarrow> 'a list" where
  "swap arr i j = (arr[i := arr ! j])[j := arr ! i]"

fun shuffle_loop :: "(nat \<Rightarrow> rat) \<Rightarrow> nat \<Rightarrow> nat \<Rightarrow> 'a list \<Rightarrow> 'a list" where
  "shuffle_loop rng c 0 arr = arr"
| "shuffle_loop rng c (Suc i) arr =
     (let j = nat \<lfloor>round_double (rng c * of_nat (Suc i + 1))\<rfloor>
      in shuffle_loop rng (Suc c) i (swap arr (Suc i) j))"

definition shuffle :: "'a list \<Rightarrow> (nat \<Rightarrow> rat) \<Rightarrow> 'a list" where
  "shuffle list rng = shuffle_loop rng 0 (length list - 1) list"

subsection \<open>Messaging schemas\<close>

text \<open>
  The value \<open>JSON.parse\<close> returns. An object is the list of its own properties, each
  key once; a number is its numeric value (the rounding of a decimal literal to a double
  is not modelled); a string is the list of its characters, which \<open>length\<close> counts. The
  schema reads the fields \<open>type\<close>, \<open>name\<close>, \<open>clientId\<close>, \<open>ready\<close>, \<open>roleKey\<close> and
  \<open>count\<close> only, none of them a member of \<open>Object.prototype\<close>.
\<close>

datatype json =
  JNull | JBool bool | JNum rat | JStr string | JArr "json list" | JObj "(string \<times> json) list"

datatype ClientMessage =
    Join string string
  | SetName string
  | SetReady bool
  | SetRoleCount RoleKey int
  | AssignRoles
  | Reset
  | RequestState

definition roleKeySchema :: "json option \<Rightarrow> RoleKey option" where
  "roleKeySchema v =
     (case v of
        Some (JStr s) \<Rightarrow>
          if s = ''A'' then Some A else if s = ''B'' then Some B
          else if s = ''C'' then Some C else if s = ''D'' then Some D else None
      | _ \<Rightarrow> None)"

text \<open>\<open>z.string().max(hi)\<close> with an optional \<open>.min(lo)\<close>.\<close>

definition stringSchema :: "nat \<Rightarrow> nat option \<Rightarrow> json option \<Rightarrow> string option" where
  "stringSchema lo hi v =
     (case v of
        Some (JStr s) \<Rightarrow>
          if lo \<le> length s \<and> (case hi of None \<Rightarrow> True | Some h \<Rightarrow> length s \<le> h)
          then Some s else None
      | _ \<Rightarrow> None)"

definition booleanSchema :: "json option \<Rightarrow> bool option" where
  "booleanSchema v = (case v of Some (JBool b) \<Rightarrow> Some b | _ \<Rightarrow> None)"

text \<open>\<open>z.number().int().min(0).max(99)\<close>.\<close>

definition countSchema :: "json option \<Rightarrow> int option" where
  "countSchema v =
     (case v of
        Some (JNum r) \<Rightarrow>
          if r = of_int \<lfloor>r\<rfloor> \<and> 0 \<le> r \<and> r \<le> 99 then Some \<lfloor>r\<rfloor> else None
      | _ \<Rightarrow> None)"

text \<open>
  \<open>clientMessageSchema.parse\<close>: a union discriminated by the field \<open>type\<close>; each
  option checks its own fields and drops every other one. \<open>None\<close> is a thrown error.
\<close>

definition clientMessageSchema :: "json \<Rightarrow> ClientMessage option" where
  "clientMessageSchema parsed =
     (case parsed of
        JObj props \<Rightarrow>
          (case map_of props ''type'' of
             Some (JStr t) \<Rightarrow>
               if t = ''join'' then
                 (case (stringSchema 0 (Some 64) (map_of props ''name''),
                        stringSchema 1 None (map_of props ''clientId'')) of
                    (Some n, Some c) \<Rightarrow> Some (Join n c)
                  | _ \<Rightarrow> None)
               else if t = ''setName'' then
                 map_option SetName (stringSchema 0 (Some 64) (map_of props ''name''))
               else if t = ''setReady'' then
                 map_option SetReady (booleanSchema (map_of props ''ready''))
               else if t = ''setRoleCount'' then
                 (case (roleKeySchema (map_of props ''roleKey''),
                        countSchema (map_of props ''count'')) of
                    (Some k, Some n) \<Rightarrow> Some (SetRoleCount k n)
                  | _ \<Rightarrow> None)
               else if t = ''assignRoles'' then Some AssignRoles
               else if t = ''reset'' then Some Reset
               else if t = ''requestState'' then Some RequestState
               else None
           | _ \<Rightarrow> None)
      | _ \<Rightarrow> None)"

datatype ServerMessage = StateMsg GameState | ErrorMsg string

section \<open>The room server (party server)\<close>

text \<open>
  A connection is identified by its \<open>id\<close>. \<open>connections\<close> is the \<open>Set\<close> of live
  connections in insertion order; \<open>connectionIdToClientId\<close> is the \<open>Map\<close> binding a
  connection to a client id.
\<close>

record Server =
  state :: GameState
  connections :: "string list"
  connectionIdToClientId :: "string \<rightharpoonup> string"

text \<open>
  What one call of a handler reads from outside: the clock (\<open>Date.now()\<close>) and the
  values of the successive calls of \<open>Math.random()\<close>, doubles given by their value.
\<close>

record env =
  now :: int
  rng :: "nat \<Rightarrow> rat"

text \<open>The messages a handler sends, in order, each with the connection it is sent to.\<close>

type_synonym sends = "(string \<times> ServerMessage) list"

definition constructor :: "string \<Rightarrow> Server" where
  "constructor room =
     \<lparr>state = \<lparr>roomId = room, hostId = None, status = Lobby, players = [],
               roleConfig = defaultRoleConfig, assignedAt = None\<rparr>,
      connections = [],
      connectionIdToClientId = Map.empty\<rparr>"

definition send :: "string \<Rightarrow> ServerMessage \<Rightarrow> sends" where
  "send conn data = [(conn, data)]"

definition personalizeStateFor :: "GameState \<Rightarrow> string option \<Rightarrow> GameState" where
  "personalizeStateFor s viewerClientId =
     s\<lparr>players :=
         foldl (\<lambda>acc (k, p).
                  obj_set k
                    (if viewerClientId = None \<or> viewerClientId = Some [] \<or>
                        Some k \<noteq> viewerClientId
                     then p\<lparr>roleKey := None\<rparr> else p) acc)
               [] (players s)\<rparr>"

definition sendStateTo :: "Server \<Rightarrow> string \<Rightarrow> sends" where
  "sendStateTo srv conn =
     send conn (StateMsg (personalizeStateFor (state srv) (connectionIdToClientId srv conn)))"

definition broadcastState :: "Server \<Rightarrow> sends" where
  "broadcastState srv = concat (map (sendStateTo srv) (connections srv))"

definition getSenderPlayer :: "Server \<Rightarrow> string \<Rightarrow> Player property \<times> sends" where
  "getSenderPlayer srv conn =
     (case connectionIdToClientId srv conn of
        None \<Rightarrow> (Undefined, send conn (ErrorMsg ''please join first''))
      | Some clientId \<Rightarrow>
          if clientId = [] then (Undefined, send conn (ErrorMsg ''please join first''))
          else (obj_get (players (state srv)) clientId, []))"

text \<open>The test \<open>!player || !player.isHost\<close>.\<close>

definition not_host :: "Player property \<Rightarrow> bool" where
  "not_host player = (case player of Own p \<Rightarrow> \<not> isHost p | _ \<Rightarrow> True)"

definition first_names :: "string list" where
  "first_names =
     [''agnes'', ''beatrice'', ''clement'', ''dorothy'', ''edmund'', ''florence'',
      ''gilbert'', ''harriet'', ''ira'', ''judith'', ''katharine'', ''leopold'', ''mabel'',
      ''nora'', ''oswald'', ''pearl'', ''quincy'', ''rosalind'', ''silas'', ''thelma'',
      ''ulysses'', ''victor'', ''wilhelmina'', ''xavier'', ''yvette'', ''zeke'']"

definition last_names :: "string list" where
  "last_names =
     [''abbott'', ''barnaby'', ''carrington'', ''davenport'', ''ellsworth'',
      ''farnsworth'', ''gafford'', ''hathaway'', ''inglewood'', ''jennings'',
      ''kensington'', ''lancaster'', ''montgomery'', ''norwood'', ''oakley'',
      ''pendleton'', ''quidley'', ''rosenberg'', ''sinclair'', ''thornton'', ''upton'',
      ''vanderbilt'', ''whitaker'', ''york'', ''zabriski'']"

text \<open>
  \<open>list[Math.floor(r * list.length)]\<close> inside a template string, the product rounded
  to a double.
\<close>

definition pick :: "string list \<Rightarrow> rat \<Rightarrow> string" where
  "pick list r =
     (let j = \<lfloor>round_double (r * of_nat (length list))\<rfloor>
      in if 0 \<le> j \<and> j < int (length list) then list ! nat j else ''undefined'')"

definition generateOldTimeyName :: "(nat \<Rightarrow> rat) \<Rightarrow> string" where
  "generateOldTimeyName r = pick first_names (r 0) @ '' '' @ pick last_names (r 1)"

text \<open>\<open>shuffled[i]\<close>, \<open>undefined\<close> past the end.\<close>

definition nth_opt :: "'a list \<Rightarrow> nat \<Rightarrow> 'a option" where
  "nth_opt xs i = (if i < length xs then Some (xs ! i) else None)"

text \<open>
  The loop \<open>orderedPlayers[i].roleKey = shuffled[i]\<close>, from index \<open>i\<close> on: each
  element of \<open>orderedPlayers\<close> is a reference to the player stored under its key.
\<close>

fun deal :: "(string \<times> Player) list \<Rightarrow> nat \<Rightarrow> RoleKey list \<Rightarrow> Player object \<Rightarrow> Player object" where
  "deal [] i shuffled ps = ps"
| "deal ((k, p0) # rest) i shuffled ps =
     deal rest (Suc i) shuffled (obj_upd k (\<lambda>p. p\<lparr>roleKey := nth_opt shuffled i\<rparr>) ps)"

text \<open>
  The \<open>switch\<close> of \<open>onMessage\<close>, on a message that passed the schema. The result is
  the server after the call and the messages sent. In \<open>setRoleCount\<close> the test
  \<open>!msg.roleKey || typeof msg.count !== "number"\<close> is false for every message of the
  schema's type.
\<close>

definition dispatch :: "ClientMessage \<Rightarrow> string \<Rightarrow> env \<Rightarrow> Server \<Rightarrow> Server \<times> sends" where
  "dispatch msg sender e srv =
     (case msg of
        Join nm clientId \<Rightarrow>
          if clientId = [] then (srv, send sender (ErrorMsg ''missing clientId''))
          else
            let srv1 = srv\<lparr>connectionIdToClientId := (connectionIdToClientId srv)(sender \<mapsto> clientId)\<rparr>;
                s = state srv1;
                srv2 =
                  (case obj_get (players s) clientId of
                     Undefined \<Rightarrow>
                       let isFirst = (length (players s) = 0);
                           s1 = s\<lparr>players :=
                                   obj_set clientId
                                     \<lparr>id' = clientId, name = generateOldTimeyName (rng e),
                                      ready = None, isHost = isFirst, joinedAt = now e,
                                      roleKey = None\<rparr>
                                     (players s)\<rparr>;
                           s2 = (if isFirst then s1\<lparr>hostId := Some clientId\<rparr> else s1)
                       in srv1\<lparr>state := s2\<rparr>
                   | _ \<Rightarrow> srv1)
            in (srv2, broadcastState srv2)
      | SetRoleCount key cnt \<Rightarrow>
          (case getSenderPlayer srv sender of
             (player, out) \<Rightarrow>
               if not_host player
               then (srv, out @ send sender (ErrorMsg ''only host can edit roles''))
               else
                 let s = state srv;
                     srv1 = srv\<lparr>state := s\<lparr>roleConfig := (roleConfig s)(key := max 0 (min 99 cnt))\<rparr>\<rparr>
                 in (srv1, out @ broadcastState srv1))
      | AssignRoles \<Rightarrow>
          (case getSenderPlayer srv sender of
             (player, out) \<Rightarrow>
               if not_host player
               then (srv, out @ send sender (ErrorMsg ''only host can assign roles''))
               else
                 let s = state srv;
                     playerIds = map fst (players s);
                     deck = buildDeck (roleConfig s)
                 in if length deck \<noteq> length playerIds
                    then (srv, out @ send sender (ErrorMsg ''role count must equal number of players''))
                    else
                      let orderedPlayers = sort_key (\<lambda>(k, p). joinedAt p) (players s);
                          shuffled = shuffle deck (rng e);
                          srv1 = srv\<lparr>state := s\<lparr>players := deal orderedPlayers 0 shuffled (players s),
                                                  status := Assigned,
                                                  assignedAt := Some (now e)\<rparr>\<rparr>
                      in (srv1, out @ broadcastState srv1))
      | Reset \<Rightarrow>
          (case getSenderPlayer srv sender of
             (player, out) \<Rightarrow>
               if not_host player
               then (srv, out @ send sender (ErrorMsg ''only host can reset''))
               else
                 let s = state srv;
                     srv1 = srv\<lparr>state := s\<lparr>players := map (\<lambda>(k, p). (k, p\<lparr>roleKey := None\<rparr>)) (players s),
                                             status := Lobby,
                                             assignedAt := None\<rparr>\<rparr>
                 in (srv1, out @ broadcastState srv1))
      | RequestState \<Rightarrow> (srv, sendStateTo srv sender)
      | _ \<Rightarrow> (srv, send sender (ErrorMsg ''unknown message type'')))"

text \<open>
  \<open>onMessage\<close>: \<open>raw\<close> is what \<open>JSON.parse\<close> makes of the text received, \<open>None\<close>
  when it throws.
\<close>

definition onMessage :: "json option \<Rightarrow> string \<Rightarrow> env \<Rightarrow> Server \<Rightarrow> Server \<times> sends" where
  "onMessage raw sender e srv =
     (case raw of
        None \<Rightarrow> (srv, send sender (ErrorMsg ''invalid message''))
      | Some parsed \<Rightarrow>
          (case clientMessageSchema parsed of
             None \<Rightarrow> (srv, send sender (ErrorMsg ''invalid message''))
           | Some msg \<Rightarrow> dispatch msg sender e srv))"

definition onConnect :: "string \<Rightarrow> Server \<Rightarrow> Server \<times> sends" where
  "onConnect conn srv =
     (srv\<lparr>connections := (if conn \<in> set (connections srv) then connections srv
                            else connections srv @ [conn])\<rparr>,
      send conn (StateMsg (personalizeStateFor (state srv) None)))"

definition onClose :: "string \<Rightarrow> Server \<Rightarrow> Server" where
  "onClose conn srv =
     (let srv1 = srv\<lparr>connections := removeAll conn (connections srv)\<rparr>
      in case connectionIdToClientId srv1 conn of
           None \<Rightarrow> srv1
         | Some clientId \<Rightarrow>
             if clientId = [] then srv1
             else srv1\<lparr>connectionIdToClientId := (connectionIdToClientId srv1)(conn := None)\<rparr>)"

subsection \<open>Histories of a room\<close>

datatype event = Connect string | Close string | Message "json option" string env

fun step :: "Server \<Rightarrow> event \<Rightarrow> Server" where
  "step srv (Connect conn) = fst (onConnect conn srv)"
| "step srv (Close conn) = onClose conn srv"
| "step srv (Message raw sender e) = fst (onMessage raw sender e srv)"

definition run :: "string \<Rightarrow> event list \<Rightarrow> Server" where
  "run room evs = foldl step (constructor room) evs"

subsection \<open>Vocabulary of the statements\<close>

text \<open>
  Two player records that agree on every field but \<open>roleKey\<close>, and two player
  dictionaries with the same keys in the same order whose players agree in that way.
\<close>

definition same_identity :: "Player \<Rightarrow> Player \<Rightarrow> bool" where
  "same_identity p q =
     (id' q = id' p \<and> name q = name p \<and> ready q = ready p \<and> isHost q = isHost p \<and>
      joinedAt q = joinedAt p)"

definition same_participants :: "Player object \<Rightarrow> Player object \<Rightarrow> bool" where
  "same_participants ps qs = list_all2 (\<lambda>(k, p) (k', q). k' = k \<and> same_identity p q) ps qs"

text \<open>The readings of the clock along a history, one for each message.\<close>

fun clock :: "event list \<Rightarrow> int list" where
  "clock [] = []"
| "clock (Message raw sender e # evs) = now e # clock evs"
| "clock (ev # evs) = clock evs"

text \<open>The player record that the \<open>join\<close> case creates.\<close>

definition new_player :: "string \<Rightarrow> env \<Rightarrow> bool \<Rightarrow> Player" where
  "new_player clientId e isFirst =
     \<lparr>id' = clientId, name = generateOldTimeyName (rng e), ready = None, isHost = isFirst,
      joinedAt = now e, roleKey = None\<rparr>"

text \<open>The caller's bound identity is a participant with \<open>isHost\<close> set.\<close>

definition bound_to_host :: "Server \<Rightarrow> string \<Rightarrow> bool" where
  "bound_to_host srv conn =
     (case connectionIdToClientId srv conn of
        None \<Rightarrow> False
      | Some clientId \<Rightarrow>
          clientId \<noteq> [] \<and>
          (case map_of (players (state srv)) clientId of None \<Rightarrow> False | Some p \<Rightarrow> isHost p))"

text \<open>
  What holds of the room state after every history: the keys of the player dictionary
  are distinct and not empty, each player is stored under its own id, the quotas are in
  \<open>[0, 99]\<close>, and a room with participants has a host, recorded in \<open>hostId\<close>, who is
  the only participant with \<open>isHost\<close> set.
\<close>

definition room_inv :: "GameState \<Rightarrow> bool" where
  "room_inv s =
     (distinct (map fst (players s)) \<and>
      (\<forall>x \<in> set (players s). fst x \<noteq> [] \<and> id' (snd x) = fst x) \<and>
      (\<forall>key \<in> set roleKeys. 0 \<le> roleConfig s key \<and> roleConfig s key \<le> 99) \<and>
      (players s = [] \<or>
       (\<exists>h ph. hostId s = Some h \<and> (h, ph) \<in> set (players s) \<and> isHost ph \<and>
               (\<forall>x \<in> set (players s). isHost (snd x) \<longrightarrow> fst x = h))))"

text \<open>
  What holds in addition when the clock never goes back: no participant joined after
  time \<open>t\<close>, and nobody joined before the host.
\<close>

definition clock_inv :: "GameState \<Rightarrow> int \<Rightarrow> bool" where
  "clock_inv s t =
     ((\<forall>x \<in> set (players s). joinedAt (snd x) \<le> t) \<and>
      (\<forall>h ph. hostId s = Some h \<and> (h, ph) \<in> set (players s) \<longrightarrow>
               (\<forall>x \<in> set (players s). joinedAt ph \<le> joinedAt (snd x))))"

subsection \<open>A sample room\<close>

definition join_msg :: "string \<Rightarrow> string \<Rightarrow> json" where
  "join_msg nm clientId =
     JObj [(''type'', JStr ''join''), (''name'', JStr nm), (''clientId'', JStr clientId)]"

definition setRoleCount_msg :: "string \<Rightarrow> rat \<Rightarrow> json" where
  "setRoleCount_msg key n =
     JObj [(''type'', JStr ''setRoleCount''), (''roleKey'', JStr key), (''count'', JNum n)]"

definition plain_msg :: "string \<Rightarrow> json" where
  "plain_msg t = JObj [(''type'', JStr t)]"

definition env_at :: "int \<Rightarrow> env" where
  "env_at t = \<lparr>now = t, rng = (\<lambda>c. 0)\<rparr>"

definition sample_history :: "event list" where
  "sample_history =
     [Connect ''c1'', Message (Some (join_msg ''Al'' ''alice'')) ''c1'' (env_at 100),
      Connect ''c2'', Message (Some (join_msg ''Bo'' ''bob'')) ''c2'' (env_at 200),
      Message (Some (setRoleCount_msg ''A'' 1)) ''c1'' (env_at 300),
      Message (Some (setRoleCount_msg ''B'' 1)) ''c1'' (env_at 400)]"

definition sample_players :: "Player object" where
  "sample_players =
     [(''alice'', \<lparr>id' = ''alice'', name = ''agnes abbott'', ready = None, isHost = True,
                   joinedAt = 100, roleKey = None\<rparr>),
      (''bob'', \<lparr>id' = ''bob'', name = ''agnes abbott'', ready = None, isHost = False,
                 joinedAt = 200, roleKey = None\<rparr>)]"

definition sample_lobby :: Server where
  "sample_lobby =
     \<lparr>state = \<lparr>roomId = ''room'', hostId = Some ''alice'', status = Lobby,
               players = sample_players,
               roleConfig = defaultRoleConfig(A := 1, B := 1), assignedAt = None\<rparr>,
      connections = [''c1'', ''c2''],
      connectionIdToClientId = [''c1'' \<mapsto> ''alice'', ''c2'' \<mapsto> ''bob'']\<rparr>"

definition inherited_id_history :: "event list" where
  "inherited_id_history =
     [Connect ''c1'', Message (Some (join_msg ''Al'' ''constructor'')) ''c1'' (env_at 100)]"

definition sample_assigned :: Server where
  "sample_assigned =
     \<lparr>state = \<lparr>roomId = ''room'', hostId = Some ''alice'', status = Assigned,
               players =
                 [(''alice'', \<lparr>id' = ''alice'', name = ''agnes abbott'', ready = None,
                               isHost = True, joinedAt = 100, roleKey = Some B\<rparr>),
                  (''bob'', \<lparr>id' = ''bob'', name = ''agnes abbott'', ready = None,
                             isHost = False, joinedAt = 200, roleKey = Some A\<rparr>)],
               roleConfig = defaultRoleConfig(A := 1, B := 1), assignedAt = Some 500\<rparr>,
      connections = [''c1'', ''c2''],
      connectionIdToClientId = [''c1'' \<mapsto> ''alice'', ''c2'' \<mapsto> ''bob'']\<rparr>"

section \<open>Properties\<close>

subsection \<open>Rounding to a double\<close>

lemma round_double_0: "round_double 0 = 0"
  by (simp add: round_double_def)

lemma bitlen_powi:
  assumes "0 < p"
  shows "(2::rat) powi (bitlen p - 1) \<le> of_int p" and "of_int p < (2::rat) powi (bitlen p)"
proof -
  from bitlen_bounds [OF assms]
  have a: "2 ^ nat (bitlen p - 1) \<le> p" and b: "p < 2 ^ nat (bitlen p)" by simp_all
  have pos: "1 \<le> bitlen p"
  proof (rule ccontr)
    assume "\<not> 1 \<le> bitlen p"
    then have "nat (bitlen p) = 0" by simp
    with b assms show False by simp
  qed
  from a have "(of_int (2 ^ nat (bitlen p - 1)) :: rat) \<le> of_int p"
    by (simp only: of_int_le_iff)
  with pos show "(2::rat) powi (bitlen p - 1) \<le> of_int p"
    by (simp add: power_int_def)
  from b have "(of_int p :: rat) < of_int (2 ^ nat (bitlen p))"
    by (simp only: of_int_less_iff)
  with pos show "of_int p < (2::rat) powi (bitlen p)"
    by (simp add: power_int_def)
qed

lemma ilog2_bounds:
  assumes "0 < x"
  shows "2 powi (ilog2 x) \<le> x" and "x < 2 powi (ilog2 x + 1)"
proof -
  obtain p q where pq: "quotient_of x = (p, q)" by (cases "quotient_of x")
  then have q: "0 < q" and x: "x = of_int p / of_int q"
    by (simp_all add: quotient_of_denom_pos quotient_of_div)
  from assms q x have p: "0 < p" by (simp add: zero_less_divide_iff)
  let ?d = "bitlen p - bitlen q"
  have low: "(2::rat) powi (?d - 1) \<le> x"
  proof -
    have "(2::rat) powi (?d - 1) = 2 powi (bitlen p - 1) / 2 powi (bitlen q)"
      by (simp add: power_int_diff)
    also have "\<dots> \<le> of_int p / of_int q"
      using bitlen_powi(1) [OF p] bitlen_powi(2) [OF q] q p
      by (intro frac_le) simp_all
    finally show ?thesis by (simp add: x)
  qed
  have up: "x < (2::rat) powi (?d + 1)"
  proof -
    have "of_int p / of_int q < (2::rat) powi (bitlen p) / 2 powi (bitlen q - 1)"
      using bitlen_powi(2) [OF p] bitlen_powi(1) [OF q] p
      by (intro frac_less) simp_all
    also have "\<dots> = (2::rat) powi (bitlen p - (bitlen q - 1))"
      by (rule power_int_diff [symmetric]) simp
    also have "\<dots> = (2::rat) powi (?d + 1)"
      by (rule arg_cong [where f = "power_int 2"]) simp
    finally show ?thesis by (simp add: x)
  qed
  show "2 powi (ilog2 x) \<le> x"
    using low by (simp add: ilog2_def pq Let_def)
  show "x < 2 powi (ilog2 x + 1)"
    using up by (auto simp: ilog2_def pq Let_def not_le)
qed

lemma round_half_even_le: "of_int (round_half_even y) \<le> y + 1 / 2"
proof (cases "y - of_int \<lfloor>y\<rfloor> < 1 / 2")
  case True
  have "of_int \<lfloor>y\<rfloor> \<le> y" by simp
  also have "\<dots> \<le> y + 1 / 2" by simp
  finally show ?thesis using True by (simp add: round_half_even_def Let_def)
next
  case False
  then have "of_int (\<lfloor>y\<rfloor> + 1) \<le> y + 1 / 2" by simp
  moreover have "of_int \<lfloor>y\<rfloor> \<le> y + 1 / 2"
    using of_int_floor_le [of y] by linarith
  ultimately show ?thesis using False by (simp add: round_half_even_def Let_def)
qed

lemma powi2_less_iff: "(2::rat) powi m < 2 powi n \<longleftrightarrow> m < n"
proof
  assume a: "(2::rat) powi m < 2 powi n"
  show "m < n"
  proof (rule ccontr)
    assume "\<not> m < n"
    then have "(2::rat) powi n \<le> 2 powi m" by (intro power_int_increasing) simp_all
    with a show False by simp
  qed
next
  assume "m < n"
  then show "(2::rat) powi m < 2 powi n" by (intro power_int_strict_increasing) simp_all
qed

lemma round_double_le:
  assumes "0 < x"
  shows "round_double x \<le> x + 2 powi (max (ilog2 x) (- 1022) - 53)"
proof -
  let ?e = "max (ilog2 x) (- 1022)"
  let ?u = "(2::rat) powi (?e - 52)"
  have u: "0 < ?u" by simp
  have half: "?u / 2 = 2 powi (?e - 53)"
    by (simp add: power_int_diff)
  have "round_double x = of_int (round_half_even (x / ?u)) * ?u"
    using assms by (simp add: round_double_def Let_def)
  also have "\<dots> \<le> (x / ?u + 1 / 2) * ?u"
    using round_half_even_le [of "x / ?u"] u by (intro mult_right_mono) simp_all
  also have "\<dots> = x + ?u / 2"
    using u by (simp add: field_simps)
  finally show ?thesis by (simp only: half)
qed

lemma double_below_one:
  assumes "is_double r" and "0 \<le> r" and "r < 1"
  shows "r \<le> 1 - 1 / 2 ^ 53"
proof (cases "r < 1 / 2")
  case True
  then show ?thesis by simp
next
  case False
  then have r: "0 < r" "1 / 2 \<le> r" by simp_all
  from ilog2_bounds(1) [OF r(1)] assms(3) have "(2::rat) powi (ilog2 r) < 1" by simp
  then have "(2::rat) powi (ilog2 r) < 2 powi 0" by (simp only: power_int_0_right)
  then have e1: "ilog2 r < 0" by (simp only: powi2_less_iff)
  have "(2::rat) powi (- 1) = 1 / 2" by (simp add: power_int_minus)
  with ilog2_bounds(2) [OF r(1)] r(2) have "(2::rat) powi (- 1) < 2 powi (ilog2 r + 1)"
    by simp
  then have e2: "- 1 < ilog2 r + 1" by (simp only: powi2_less_iff)
  from e1 e2 have e: "ilog2 r = - 1" by simp
  from assms(1) have "round_double r = r" by (simp add: is_double_def)
  with r(1) e have eq: "r = of_int (round_half_even (r / 2 powi (- 53))) * 2 powi (- 53)"
    by (simp add: round_double_def Let_def)
  define k where "k = round_half_even (r / 2 powi (- 53))"
  from eq have rk: "r = of_int k / 2 ^ 53"
    by (simp add: k_def power_int_minus field_simps)
  with assms(3) have "(of_int k :: rat) < of_int (2 ^ 53)" by (simp add: field_simps)
  then have "k < 2 ^ 53" by (simp only: of_int_less_iff)
  then have "k \<le> 2 ^ 53 - 1" by simp
  then have "(of_int k :: rat) \<le> of_int (2 ^ 53 - 1)" by (simp only: of_int_le_iff)
  then show ?thesis by (simp add: rk field_simps)
qed

lemma round_product_below:
  assumes "is_double r" and "0 \<le> r" and "r < 1" and "0 < n"
  shows "round_double (r * of_nat n) < of_nat n"
proof (cases "r = 0")
  case True
  with assms(4) show ?thesis by (simp add: round_double_0)
next
  case False
  let ?x = "r * of_nat n"
  let ?e = "max (ilog2 ?x) (- 1022)"
  from False assms have x: "0 < ?x" by simp
  from assms(3,4) have xn: "?x < of_nat n" by simp
  from double_below_one [OF assms(1-3)] assms(4)
  have le: "?x \<le> of_nat n - of_nat n / 2 ^ 53"
    using mult_right_mono [of r "1 - 1 / 2 ^ 53" "of_nat n"] by (simp add: field_simps)
  show ?thesis
  proof (rule ccontr)
    assume "\<not> round_double ?x < of_nat n"
    with round_double_le [OF x] le have "of_nat n / 2 ^ 53 \<le> (2::rat) powi (?e - 53)"
      by simp
    then have "of_nat n \<le> (2::rat) powi (?e - 53) * 2 ^ 53"
      by (simp add: field_simps)
    also have "\<dots> = 2 powi ?e"
      by (simp add: power_int_diff)
    finally have n: "of_nat n \<le> (2::rat) powi ?e" .
    show False
    proof (cases "- 1022 \<le> ilog2 ?x")
      case True
      then have "?e = ilog2 ?x" by simp
      with n ilog2_bounds(1) [OF x] xn show False by simp
    next
      case False
      then have "?e = - 1022" by simp
      with n have "of_nat n \<le> (2::rat) powi (- 1022)" by simp
      also have "\<dots> < 2 powi 0"
        by (simp only: powi2_less_iff)
      finally show False using assms(4) by simp
    qed
  qed
qed

lemma shuffle_index:
  assumes "is_double r" and "0 \<le> r" and "r < 1"
  shows "nat \<lfloor>round_double (r * of_nat (Suc i + 1))\<rfloor> \<le> Suc i"
proof -
  have "round_double (r * of_nat (Suc i + 1)) < of_nat (Suc i + 1)"
    using assms by (intro round_product_below) simp_all
  then have "\<lfloor>round_double (r * of_nat (Suc i + 1))\<rfloor> < int (Suc i + 1)"
    by (simp add: floor_less_iff del: of_nat_Suc of_nat_add)
  then show ?thesis by linarith
qed

lemma is_double_0: "is_double 0"
  by (simp add: is_double_def round_double_0)

text \<open>
  Two products where the rounding decides the index: the exact products lie just below
  4 and 5, the doubles are 4 and 5.
\<close>

lemma rounded_product_example:
  "is_double (2573485501354569 / 2 ^ 52) \<and>
   nat \<lfloor>(2573485501354569 / 2 ^ 52 * 7 :: rat)\<rfloor> = 3 \<and>
   nat \<lfloor>round_double (2573485501354569 / 2 ^ 52 * 7)\<rfloor> = 4 \<and>
   is_double (866076851417403 / 2 ^ 52) \<and>
   nat \<lfloor>(866076851417403 / 2 ^ 52 * 26 :: rat)\<rfloor> = 4 \<and>
   nat \<lfloor>round_double (866076851417403 / 2 ^ 52 * 26)\<rfloor> = 5"
  by code_simp

lemma shuffle_rounded_example:
  "shuffle [0, 1, 2, 3, 4, 5, 6 :: int] (\<lambda>c. 2573485501354569 / 2 ^ 52) = [0, 5, 1, 6, 2, 3, 4]"
  by code_simp

lemma pick_rounded_example: "pick first_names (866076851417403 / 2 ^ 52) = ''florence''"
  by code_simp

subsection \<open>Dictionaries\<close>

lemma update_new: "k \<notin> fst ` set obj \<Longrightarrow> AList.update k v obj = obj @ [(k, v)]"
  by (induction obj) auto

lemma map_of_insert_index:
  "k \<notin> fst ` set obj \<Longrightarrow> map_of (insert_index k v obj) = (map_of obj)(k \<mapsto> v)"
  by (induction obj) (auto simp: fun_eq_iff)

lemma set_insert_index: "set (insert_index k v obj) = insert (k, v) (set obj)"
  by (induction obj) (auto split: if_splits)

lemma length_insert_index: "length (insert_index k v obj) = Suc (length obj)"
  by (induction obj) auto

lemma distinct_insert_index:
  "k \<notin> fst ` set obj \<Longrightarrow> distinct (map fst obj) \<Longrightarrow> distinct (map fst (insert_index k v obj))"
  by (induction obj) (auto simp: set_insert_index)

lemma map_of_obj_set: "map_of (obj_set k v obj) = (map_of obj)(k \<mapsto> v)"
  by (simp add: obj_set_def update_conv' map_of_insert_index)

lemma set_obj_set_new: "k \<notin> fst ` set obj \<Longrightarrow> set (obj_set k v obj) = insert (k, v) (set obj)"
  by (simp add: obj_set_def update_new set_insert_index)

lemma keys_obj_set: "fst ` set (obj_set k v obj) = insert k (fst ` set obj)"
  by (simp add: obj_set_def dom_update set_insert_index)

lemma length_obj_set_new: "k \<notin> fst ` set obj \<Longrightarrow> length (obj_set k v obj) = Suc (length obj)"
  by (simp add: obj_set_def update_new length_insert_index)

lemma distinct_obj_set:
  "distinct (map fst obj) \<Longrightarrow> distinct (map fst (obj_set k v obj))"
  by (simp add: obj_set_def distinct_update distinct_insert_index)

lemma obj_set_empty: "obj_set k v [] = [(k, v)]"
  by (simp add: obj_set_def)

lemma keys_obj_upd: "map fst (obj_upd k f obj) = map fst obj"
  by (induction obj) (auto simp: obj_upd_def)

lemma map_of_obj_upd:
  "map_of (obj_upd k f obj) k' = (if k' = k then map_option f (map_of obj k) else map_of obj k')"
  by (induction obj) (auto simp: obj_upd_def)

lemma obj_get_Own: "obj_get obj k = Own v \<longleftrightarrow> map_of obj k = Some v"
  by (auto simp: obj_get_def split: option.splits)

lemma obj_get_Undefined: "obj_get obj k = Undefined \<Longrightarrow> k \<notin> fst ` set obj"
  by (auto simp: obj_get_def map_of_eq_None_iff split: option.splits if_splits)

subsection \<open>The cases of the dispatcher\<close>

lemma dispatch_Join_empty:
  "dispatch (Join n []) sender e srv = (srv, [(sender, ErrorMsg ''missing clientId'')])"
  by (simp add: dispatch_def send_def)

lemma dispatch_Join_existing:
  "c \<noteq> [] \<Longrightarrow> obj_get (players (state srv)) c \<noteq> Undefined \<Longrightarrow>
   fst (dispatch (Join n c) sender e srv) =
     srv\<lparr>connectionIdToClientId := (connectionIdToClientId srv)(sender \<mapsto> c)\<rparr>"
  by (cases "obj_get (players (state srv)) c") (simp_all add: dispatch_def Let_def)

lemma dispatch_Join_new:
  "c \<noteq> [] \<Longrightarrow> obj_get (players (state srv)) c = Undefined \<Longrightarrow>
   fst (dispatch (Join n c) sender e srv) =
     srv\<lparr>connectionIdToClientId := (connectionIdToClientId srv)(sender \<mapsto> c),
         state := (state srv)\<lparr>players := obj_set c (new_player c e (players (state srv) = [])) (players (state srv)),
                               hostId := (if players (state srv) = [] then Some c else hostId (state srv))\<rparr>\<rparr>"
  by (simp add: dispatch_def Let_def new_player_def)

lemma dispatch_Join_sends:
  "c \<noteq> [] \<Longrightarrow> snd (dispatch (Join n c) sender e srv) = broadcastState (fst (dispatch (Join n c) sender e srv))"
  by (simp add: dispatch_def Let_def)

lemma getSenderPlayer_cases:
  "getSenderPlayer srv conn = (Undefined, [(conn, ErrorMsg ''please join first'')]) \<or>
   (\<exists>c. connectionIdToClientId srv conn = Some c \<and> c \<noteq> [] \<and>
        getSenderPlayer srv conn = (obj_get (players (state srv)) c, []))"
  by (auto simp: getSenderPlayer_def send_def split: option.splits)

lemma host_sender:
  "\<not> not_host (fst (getSenderPlayer srv conn)) \<Longrightarrow>
   \<exists>c p. connectionIdToClientId srv conn = Some c \<and> c \<noteq> [] \<and> map_of (players (state srv)) c = Some p \<and>
         isHost p \<and> getSenderPlayer srv conn = (Own p, [])"
  using getSenderPlayer_cases [of srv conn]
  by (auto simp: not_host_def obj_get_Own split: property.splits)

lemma dispatch_SetRoleCount:
  "dispatch (SetRoleCount k n) sender e srv =
     (if not_host (fst (getSenderPlayer srv sender))
      then (srv, snd (getSenderPlayer srv sender) @ [(sender, ErrorMsg ''only host can edit roles'')])
      else (srv\<lparr>state := (state srv)\<lparr>roleConfig := (roleConfig (state srv))(k := max 0 (min 99 n))\<rparr>\<rparr>,
            broadcastState (srv\<lparr>state := (state srv)\<lparr>roleConfig := (roleConfig (state srv))(k := max 0 (min 99 n))\<rparr>\<rparr>)))"
  using host_sender [of srv sender]
  by (auto simp: dispatch_def Let_def send_def split: prod.splits)

lemma dispatch_Reset:
  "dispatch Reset sender e srv =
     (if not_host (fst (getSenderPlayer srv sender))
      then (srv, snd (getSenderPlayer srv sender) @ [(sender, ErrorMsg ''only host can reset'')])
      else (srv\<lparr>state := (state srv)\<lparr>players := map (\<lambda>(k, p). (k, p\<lparr>roleKey := None\<rparr>)) (players (state srv)),
                                     status := Lobby, assignedAt := None\<rparr>\<rparr>,
            broadcastState (srv\<lparr>state := (state srv)\<lparr>players := map (\<lambda>(k, p). (k, p\<lparr>roleKey := None\<rparr>)) (players (state srv)),
                                     status := Lobby, assignedAt := None\<rparr>\<rparr>)))"
  using host_sender [of srv sender]
  by (auto simp: dispatch_def Let_def send_def split: prod.splits)

lemma dispatch_AssignRoles:
  "dispatch AssignRoles sender e srv =
     (if not_host (fst (getSenderPlayer srv sender))
      then (srv, snd (getSenderPlayer srv sender) @ [(sender, ErrorMsg ''only host can assign roles'')])
      else if length (buildDeck (roleConfig (state srv))) \<noteq> length (players (state srv))
      then (srv, [(sender, ErrorMsg ''role count must equal number of players'')])
      else (srv\<lparr>state := (state srv)\<lparr>players := deal (sort_key (\<lambda>(k, p). joinedAt p) (players (state srv))) 0
                                                   (shuffle (buildDeck (roleConfig (state srv))) (rng e)) (players (state srv)),
                                     status := Assigned, assignedAt := Some (now e)\<rparr>\<rparr>,
            broadcastState (srv\<lparr>state := (state srv)\<lparr>players := deal (sort_key (\<lambda>(k, p). joinedAt p) (players (state srv))) 0
                                                   (shuffle (buildDeck (roleConfig (state srv))) (rng e)) (players (state srv)),
                                     status := Assigned, assignedAt := Some (now e)\<rparr>\<rparr>)))"
  using host_sender [of srv sender]
  by (auto simp: dispatch_def Let_def send_def split: prod.splits)

lemma dispatch_other:
  "dispatch RequestState sender e srv = (srv, sendStateTo srv sender)"
  "dispatch (SetName n) sender e srv = (srv, [(sender, ErrorMsg ''unknown message type'')])"
  "dispatch (SetReady b) sender e srv = (srv, [(sender, ErrorMsg ''unknown message type'')])"
  by (simp_all add: dispatch_def send_def)

lemma bound_to_host_iff: "bound_to_host srv conn \<longleftrightarrow> \<not> not_host (fst (getSenderPlayer srv conn))"
  by (auto simp: bound_to_host_def getSenderPlayer_def not_host_def obj_get_def send_def
      split: option.splits)

lemma onMessage_parsed:
  "clientMessageSchema parsed = Some msg \<Longrightarrow>
   onMessage (Some parsed) sender e srv = dispatch msg sender e srv"
  by (simp add: onMessage_def)

lemma getSenderPlayer_unbound:
  "connectionIdToClientId srv sender = None \<Longrightarrow>
   getSenderPlayer srv sender = (Undefined, [(sender, ErrorMsg ''please join first'')])"
  by (simp add: getSenderPlayer_def send_def)

lemma broadcastState_recipients: "x \<in> set (broadcastState srv) \<Longrightarrow> \<exists>s. snd x = StateMsg s"
  by (auto simp: broadcastState_def sendStateTo_def send_def)

lemma broadcastState_no_error: "(c, ErrorMsg m) \<notin> set (broadcastState srv)"
  using broadcastState_recipients by fastforce

lemma sendStateTo_no_error: "(c, ErrorMsg m) \<notin> set (sendStateTo srv conn)"
  by (simp add: sendStateTo_def send_def)

lemma getSenderPlayer_sends: "x \<in> set (snd (getSenderPlayer srv sender)) \<Longrightarrow> fst x = sender"
  using getSenderPlayer_cases [of srv sender] by auto

lemma dispatch_error:
  assumes "(c, ErrorMsg m) \<in> set (snd (dispatch msg sender e srv))"
  shows "fst (dispatch msg sender e srv) = srv \<and>
         (\<forall>x \<in> set (snd (dispatch msg sender e srv)). fst x = sender)"
proof (cases msg)
  case (Join n cid)
  show ?thesis
  proof (cases "cid = []")
    case True
    then show ?thesis by (simp add: Join dispatch_Join_empty)
  next
    case False
    with assms Join show ?thesis
      by (simp add: dispatch_Join_sends broadcastState_no_error)
  qed
next
  case (SetRoleCount k n)
  with assms show ?thesis
    by (auto simp: dispatch_SetRoleCount broadcastState_no_error
        dest: getSenderPlayer_sends split: if_splits)
next
  case AssignRoles
  with assms show ?thesis
    by (auto simp: dispatch_AssignRoles broadcastState_no_error
        dest: getSenderPlayer_sends split: if_splits)
next
  case Reset
  with assms show ?thesis
    by (auto simp: dispatch_Reset broadcastState_no_error
        dest: getSenderPlayer_sends split: if_splits)
next
  case RequestState
  with assms show ?thesis
    by (simp add: dispatch_other sendStateTo_no_error)
qed (simp_all add: dispatch_other)

subsection \<open>The message schema\<close>

lemma countSchema_range: "countSchema v = Some n \<Longrightarrow> 0 \<le> n \<and> n \<le> 99"
  by (auto simp: countSchema_def le_floor_iff floor_le_iff
      split: option.splits json.splits if_splits)

lemma schema_SetRoleCount_range:
  "clientMessageSchema parsed = Some (SetRoleCount k n) \<Longrightarrow> 0 \<le> n \<and> n \<le> 99"
  by (auto simp: clientMessageSchema_def dest: countSchema_range
      split: json.splits option.splits if_splits prod.splits)

lemma schema_rejects_count:
  "map_of props ''type'' = Some (JStr ''setRoleCount'') \<Longrightarrow>
   map_of props ''count'' = Some (JNum r) \<Longrightarrow>
   \<not> (r = of_int \<lfloor>r\<rfloor> \<and> 0 \<le> r \<and> r \<le> 99) \<Longrightarrow> clientMessageSchema (JObj props) = None"
  by (auto simp: clientMessageSchema_def countSchema_def split: option.splits)

subsection \<open>The sample room\<close>

lemmas sample_defs = join_msg_def setRoleCount_msg_def plain_msg_def env_at_def

lemmas eval_defs =
  onMessage_def onConnect_def onClose_def clientMessageSchema_def stringSchema_def
  countSchema_def roleKeySchema_def booleanSchema_def dispatch_def Let_def send_def
  getSenderPlayer_def not_host_def obj_get_def obj_set_def object_prototype_keys_def
  is_array_index_def is_digit_def index_value_def generateOldTimeyName_def pick_def
  first_names_def last_names_def round_double_0

lemma run_sample: "run ''room'' sample_history = sample_lobby"
  by (simp add: run_def sample_history_def sample_lobby_def sample_players_def sample_defs
      eval_defs constructor_def)

lemma sample_host: "bound_to_host sample_lobby ''c1''"
  by (simp add: bound_to_host_def sample_lobby_def sample_players_def)

subsection \<open>Players that keep their identity\<close>

lemma same_identity_refl: "same_identity p p"
  by (simp add: same_identity_def)

lemma same_identity_trans: "same_identity p q \<Longrightarrow> same_identity q r \<Longrightarrow> same_identity p r"
  by (simp add: same_identity_def)

lemma same_identity_roleKey: "same_identity p (p\<lparr>roleKey := r\<rparr>)"
  by (simp add: same_identity_def)

lemma same_participants_refl: "same_participants ps ps"
  by (simp add: same_participants_def list_all2_same same_identity_refl split: prod.splits)

lemma same_participants_trans:
  "same_participants ps qs \<Longrightarrow> same_participants qs rs \<Longrightarrow> same_participants ps rs"
proof -
  assume a: "same_participants ps qs" and b: "same_participants qs rs"
  show ?thesis
    unfolding same_participants_def
    by (rule list_all2_trans [OF _ a [unfolded same_participants_def] b [unfolded same_participants_def]])
       (auto intro: same_identity_trans)
qed

lemma same_participants_keys: "same_participants ps qs \<Longrightarrow> map fst qs = map fst ps"
  unfolding same_participants_def
  by (induction rule: list_all2_induct) auto

lemma same_participants_map_of:
  "same_participants ps qs \<Longrightarrow> map_of ps k = Some p \<Longrightarrow>
   \<exists>q. map_of qs k = Some q \<and> same_identity p q"
  unfolding same_participants_def
  by (induction rule: list_all2_induct) (auto split: if_splits)

lemma same_participants_set:
  "same_participants ps qs \<Longrightarrow> (k, q) \<in> set qs \<Longrightarrow> \<exists>p. (k, p) \<in> set ps \<and> same_identity p q"
  unfolding same_participants_def
  by (induction rule: list_all2_induct) auto

lemma same_participants_set':
  "same_participants ps qs \<Longrightarrow> (k, p) \<in> set ps \<Longrightarrow> \<exists>q. (k, q) \<in> set qs \<and> same_identity p q"
  unfolding same_participants_def
  by (induction rule: list_all2_induct) auto

lemma same_participants_map:
  "(\<And>k p. same_identity p (f k p)) \<Longrightarrow> same_participants ps (map (\<lambda>(k, p). (k, f k p)) ps)"
  by (induction ps) (auto simp: same_participants_def)

lemma same_participants_obj_upd:
  "(\<And>p. same_identity p (f p)) \<Longrightarrow> same_participants ps (obj_upd k f ps)"
  by (induction ps) (auto simp: same_participants_def obj_upd_def same_identity_refl split: if_splits)

lemma same_participants_deal: "same_participants ps (deal ord i shuffled ps)"
proof (induction ord arbitrary: i ps)
  case Nil
  show ?case by (simp add: same_participants_refl)
next
  case (Cons x ord)
  obtain k p0 where x: "x = (k, p0)" by (cases x)
  have "same_participants ps (obj_upd k (\<lambda>p. p\<lparr>roleKey := nth_opt shuffled i\<rparr>) ps)"
    by (rule same_participants_obj_upd) (rule same_identity_roleKey)
  with Cons.IH show ?case
    unfolding x by (auto intro: same_participants_trans)
qed

lemma same_participants_reset:
  "same_participants ps (map (\<lambda>(k, p). (k, p\<lparr>roleKey := None\<rparr>)) ps)"
  by (rule same_participants_map) (rule same_identity_roleKey)

subsection \<open>Join\<close>

lemma schema_Join_nonempty: "clientMessageSchema parsed = Some (Join n c) \<Longrightarrow> c \<noteq> [] \<and> length n \<le> 64"
  by (auto simp: clientMessageSchema_def stringSchema_def
      split: json.splits option.splits if_splits prod.splits)

lemma dispatch_Join_state_existing:
  "obj_get (players (state srv)) c \<noteq> Undefined \<Longrightarrow>
   state (fst (dispatch (Join n c) sender e srv)) = state srv"
  by (cases "c = []") (simp_all add: dispatch_Join_empty dispatch_Join_existing)

lemma dispatch_Join_then_present:
  "c \<noteq> [] \<Longrightarrow> obj_get (players (state (fst (dispatch (Join n c) sender e srv)))) c \<noteq> Undefined"
proof (cases "obj_get (players (state srv)) c = Undefined")
  case True
  assume "c \<noteq> []"
  with True show ?thesis
    by (simp add: dispatch_Join_new obj_get_def map_of_obj_set)
next
  case False
  assume "c \<noteq> []"
  with False show ?thesis by (simp add: dispatch_Join_existing)
qed

subsection \<open>Reset\<close>

lemma bound_to_host_players:
  "bound_to_host srv conn \<Longrightarrow> connectionIdToClientId srv' conn = connectionIdToClientId srv conn \<Longrightarrow>
   same_participants (players (state srv)) (players (state srv')) \<Longrightarrow> bound_to_host srv' conn"
  by (auto simp: bound_to_host_def same_identity_def split: option.splits
      dest!: same_participants_map_of)

lemma reset_twice:
  "map (\<lambda>(k, p). (k, p\<lparr>roleKey := None\<rparr>)) (map (\<lambda>(k, p). (k, p\<lparr>roleKey := None\<rparr>)) ps) =
   map (\<lambda>(k, p). (k, p\<lparr>roleKey := None\<rparr>)) ps"
  by (induction ps) auto

subsection \<open>What one message does to the players\<close>

lemma dispatch_players_cases:
  "(same_participants (players (state srv)) (players (state (fst (dispatch msg sender e srv)))) \<and>
    hostId (state (fst (dispatch msg sender e srv))) = hostId (state srv)) \<or>
   (\<exists>c. c \<noteq> [] \<and> c \<notin> fst ` set (players (state srv)) \<and>
        players (state (fst (dispatch msg sender e srv))) =
          obj_set c (new_player c e (players (state srv) = [])) (players (state srv)) \<and>
        hostId (state (fst (dispatch msg sender e srv))) =
          (if players (state srv) = [] then Some c else hostId (state srv)) \<and>
        now e = joinedAt (new_player c e (players (state srv) = [])))"
proof (cases msg)
  case (Join n c)
  show ?thesis
  proof (cases "c = [] \<or> obj_get (players (state srv)) c \<noteq> Undefined")
    case True
    then have "state (fst (dispatch msg sender e srv)) = state srv"
      unfolding Join by (auto simp: dispatch_Join_empty dispatch_Join_state_existing)
    then show ?thesis by (simp add: same_participants_refl)
  next
    case False
    then have "c \<noteq> []" and u: "obj_get (players (state srv)) c = Undefined" by simp_all
    from u have "c \<notin> fst ` set (players (state srv))" by (rule obj_get_Undefined)
    with \<open>c \<noteq> []\<close> u show ?thesis
      unfolding Join
      by (intro disjI2 exI [of _ c]) (simp add: dispatch_Join_new new_player_def)
  qed
next
  case (SetRoleCount k n)
  then show ?thesis by (simp add: dispatch_SetRoleCount same_participants_refl)
next
  case AssignRoles
  then show ?thesis
    by (simp add: dispatch_AssignRoles same_participants_refl same_participants_deal)
next
  case Reset
  then show ?thesis
    by (simp add: dispatch_Reset same_participants_refl same_participants_reset)
qed (simp_all add: dispatch_other same_participants_refl)

lemma onMessage_players_cases:
  "(same_participants (players (state srv)) (players (state (fst (onMessage raw sender e srv)))) \<and>
    hostId (state (fst (onMessage raw sender e srv))) = hostId (state srv)) \<or>
   (\<exists>c. c \<noteq> [] \<and> c \<notin> fst ` set (players (state srv)) \<and>
        players (state (fst (onMessage raw sender e srv))) =
          obj_set c (new_player c e (players (state srv) = [])) (players (state srv)) \<and>
        hostId (state (fst (onMessage raw sender e srv))) =
          (if players (state srv) = [] then Some c else hostId (state srv)) \<and>
        now e = joinedAt (new_player c e (players (state srv) = [])))"
proof (cases raw)
  case None
  then show ?thesis by (simp add: onMessage_def same_participants_refl)
next
  case (Some parsed)
  show ?thesis
  proof (cases "clientMessageSchema parsed")
    case None
    with Some show ?thesis by (simp add: onMessage_def same_participants_refl)
  next
    case (Some msg)
    with \<open>raw = Some parsed\<close> dispatch_players_cases [of srv msg sender e]
    show ?thesis by (simp add: onMessage_def)
  qed
qed

lemma onMessage_keeps_player:
  assumes "map_of (players (state srv)) k = Some p"
  shows "\<exists>q. map_of (players (state (fst (onMessage raw sender e srv)))) k = Some q \<and> same_identity p q"
  using onMessage_players_cases [of srv raw sender e]
proof (elim disjE exE conjE)
  assume "same_participants (players (state srv)) (players (state (fst (onMessage raw sender e srv))))"
  then show ?thesis using assms by (rule same_participants_map_of)
next
  fix c
  assume new: "c \<notin> fst ` set (players (state srv))"
    and ps: "players (state (fst (onMessage raw sender e srv))) =
          obj_set c (new_player c e (players (state srv) = [])) (players (state srv))"
  from new assms have "k \<noteq> c"
    by (auto simp: map_of_eq_None_iff [symmetric])
  with assms show ?thesis
    by (simp add: ps map_of_obj_set same_identity_refl)
qed

lemma step_keeps_player:
  assumes "map_of (players (state srv)) k = Some p"
  shows "\<exists>q. map_of (players (state (step srv ev))) k = Some q \<and> same_identity p q"
proof (cases ev)
  case (Message raw sender e)
  with assms show ?thesis by (simp add: onMessage_keeps_player)
qed (use assms in \<open>auto simp: onConnect_def onClose_def Let_def same_identity_refl split: option.splits\<close>)

lemma steps_keep_player:
  "map_of (players (state srv)) k = Some p \<Longrightarrow>
   \<exists>q. map_of (players (state (foldl step srv evs))) k = Some q \<and> same_identity p q"
proof (induction evs arbitrary: srv p)
  case Nil
  then show ?case by (simp add: same_identity_refl)
next
  case (Cons ev evs)
  from step_keeps_player [OF Cons.prems, of ev]
  obtain q where q: "map_of (players (state (step srv ev))) k = Some q" "same_identity p q"
    by blast
  from Cons.IH [OF q(1)] q(2) show ?case
    by (auto intro: same_identity_trans)
qed

lemma join_creates_named:
  assumes "map_of (players (state srv)) c = None"
    and "map_of (players (state (fst (dispatch (Join n c) sender e srv)))) c = Some p"
  shows "p = new_player c e (players (state srv) = [])"
proof (cases "c = [] \<or> obj_get (players (state srv)) c \<noteq> Undefined")
  case True
  then have "state (fst (dispatch (Join n c) sender e srv)) = state srv"
    by (auto simp: dispatch_Join_empty dispatch_Join_state_existing)
  with assms show ?thesis by simp
next
  case False
  with assms(2) show ?thesis
    by (simp add: dispatch_Join_new map_of_obj_set)
qed

lemma dispatch_Join_name_ignored:
  "dispatch (Join n1 c) sender e srv = dispatch (Join n2 c) sender e srv"
  by (simp add: dispatch_def)

subsection \<open>The sample room after the deal\<close>

lemma assign_sample:
  "fst (onMessage (Some (plain_msg ''assignRoles'')) ''c1'' (env_at 500) sample_lobby) = sample_assigned"
  by (simp add: sample_lobby_def sample_assigned_def sample_players_def sample_defs eval_defs
      buildDeck_def roleKeys_def shuffle_def swap_def nth_opt_def obj_upd_def defaultRoleConfig_def)

lemma assigned_host: "bound_to_host sample_assigned ''c1''"
  by (simp add: bound_to_host_def sample_assigned_def)

lemma schema_plain:
  "clientMessageSchema (plain_msg ''assignRoles'') = Some AssignRoles"
  "clientMessageSchema (plain_msg ''reset'') = Some Reset"
  "clientMessageSchema (plain_msg ''requestState'') = Some RequestState"
  by (simp_all add: plain_msg_def clientMessageSchema_def)

lemma schema_join: "c \<noteq> [] \<Longrightarrow> length n \<le> 64 \<Longrightarrow> clientMessageSchema (join_msg n c) = Some (Join n c)"
  by (cases c) (simp_all add: join_msg_def clientMessageSchema_def stringSchema_def)

subsection \<open>What holds after every history\<close>

lemma same_participants_empty: "same_participants ps qs \<Longrightarrow> (qs = []) = (ps = [])"
  by (auto simp: same_participants_def)

lemma dispatch_roleConfig_cases:
  "roleConfig (state (fst (dispatch msg sender e srv))) = roleConfig (state srv) \<or>
   (\<exists>k n. 0 \<le> n \<and> n \<le> 99 \<and>
      roleConfig (state (fst (dispatch msg sender e srv))) = (roleConfig (state srv))(k := n))"
proof (cases msg)
  case (Join n c)
  show ?thesis
  proof (cases "c = [] \<or> obj_get (players (state srv)) c \<noteq> Undefined")
    case True
    then have "state (fst (dispatch msg sender e srv)) = state srv"
      unfolding Join by (auto simp: dispatch_Join_empty dispatch_Join_state_existing)
    then show ?thesis by simp
  next
    case False
    then show ?thesis unfolding Join by (simp add: dispatch_Join_new)
  qed
next
  case (SetRoleCount k n)
  show ?thesis
  proof (cases "not_host (fst (getSenderPlayer srv sender))")
    case True
    then show ?thesis unfolding SetRoleCount dispatch_SetRoleCount by simp
  next
    case False
    then show ?thesis
      unfolding SetRoleCount dispatch_SetRoleCount
      by (intro disjI2 exI [of _ k] exI [of _ "max 0 (min 99 n)"]) simp
  qed
qed (simp_all add: dispatch_AssignRoles dispatch_Reset dispatch_other)

lemma onMessage_roleConfig_cases:
  "roleConfig (state (fst (onMessage raw sender e srv))) = roleConfig (state srv) \<or>
   (\<exists>k n. 0 \<le> n \<and> n \<le> 99 \<and>
      roleConfig (state (fst (onMessage raw sender e srv))) = (roleConfig (state srv))(k := n))"
  using dispatch_roleConfig_cases [of _ sender e srv]
  by (auto simp: onMessage_def split: option.splits)

lemma room_inv_same:
  assumes inv: "room_inv s"
    and same: "same_participants (players s) (players s')"
    and host: "hostId s' = hostId s"
    and conf: "\<forall>key \<in> set roleKeys. 0 \<le> roleConfig s' key \<and> roleConfig s' key \<le> 99"
  shows "room_inv s'"
proof -
  have keys: "map fst (players s') = map fst (players s)"
    using same by (rule same_participants_keys)
  have bwd: "\<And>k q. (k, q) \<in> set (players s') \<Longrightarrow> \<exists>p. (k, p) \<in> set (players s) \<and> same_identity p q"
    using same by (rule same_participants_set)
  have fwd: "\<And>k p. (k, p) \<in> set (players s) \<Longrightarrow> \<exists>q. (k, q) \<in> set (players s') \<and> same_identity p q"
    using same by (rule same_participants_set')
  have d: "distinct (map fst (players s'))"
    using inv keys by (simp add: room_inv_def)
  have ids: "\<forall>x \<in> set (players s'). fst x \<noteq> [] \<and> id' (snd x) = fst x"
  proof
    fix x assume "x \<in> set (players s')"
    then obtain p where "(fst x, p) \<in> set (players s)" "same_identity p (snd x)"
      using bwd [of "fst x" "snd x"] by auto
    with inv show "fst x \<noteq> [] \<and> id' (snd x) = fst x"
      by (fastforce simp: room_inv_def same_identity_def)
  qed
  have hostpart: "players s' = [] \<or>
       (\<exists>h ph. hostId s' = Some h \<and> (h, ph) \<in> set (players s') \<and> isHost ph \<and>
               (\<forall>x \<in> set (players s'). isHost (snd x) \<longrightarrow> fst x = h))"
  proof (cases "players s = []")
    case True
    then show ?thesis using same by (simp add: same_participants_empty)
  next
    case False
    with inv obtain h ph where h: "hostId s = Some h" "(h, ph) \<in> set (players s)" "isHost ph"
      "\<forall>x \<in> set (players s). isHost (snd x) \<longrightarrow> fst x = h"
      by (auto simp: room_inv_def)
    from fwd [OF h(2)] obtain qh where qh: "(h, qh) \<in> set (players s')" "same_identity ph qh"
      by blast
    have "\<forall>x \<in> set (players s'). isHost (snd x) \<longrightarrow> fst x = h"
    proof (intro ballI impI)
      fix x assume x: "x \<in> set (players s')" "isHost (snd x)"
      then obtain p where "(fst x, p) \<in> set (players s)" "same_identity p (snd x)"
        using bwd [of "fst x" "snd x"] by auto
      with x(2) h(4) show "fst x = h"
        by (fastforce simp: same_identity_def)
    qed
    with qh h(1,3) host show ?thesis
      by (auto simp: same_identity_def)
  qed
  from d ids conf hostpart show ?thesis
    by (simp add: room_inv_def)
qed

lemma room_inv_new:
  assumes inv: "room_inv s"
    and c: "c \<noteq> []" "c \<notin> fst ` set (players s)"
    and ps: "players s' = obj_set c (new_player c e (players s = [])) (players s)"
    and host: "hostId s' = (if players s = [] then Some c else hostId s)"
    and conf: "\<forall>key \<in> set roleKeys. 0 \<le> roleConfig s' key \<and> roleConfig s' key \<le> 99"
  shows "room_inv s'"
proof -
  have set': "set (players s') = insert (c, new_player c e (players s = [])) (set (players s))"
    using c(2) by (simp add: ps set_obj_set_new)
  have d: "distinct (map fst (players s'))"
    using inv by (simp add: ps distinct_obj_set room_inv_def)
  have ids: "\<forall>x \<in> set (players s'). fst x \<noteq> [] \<and> id' (snd x) = fst x"
    using inv c(1) by (auto simp: set' room_inv_def new_player_def)
  have hostpart: "players s' = [] \<or>
       (\<exists>h ph. hostId s' = Some h \<and> (h, ph) \<in> set (players s') \<and> isHost ph \<and>
               (\<forall>x \<in> set (players s'). isHost (snd x) \<longrightarrow> fst x = h))"
  proof (cases "players s = []")
    case True
    then show ?thesis
      by (intro disjI2 exI [of _ c] exI [of _ "new_player c e True"])
         (simp add: host set' new_player_def)
  next
    case False
    with inv obtain h ph where h: "hostId s = Some h" "(h, ph) \<in> set (players s)" "isHost ph"
      "\<forall>x \<in> set (players s). isHost (snd x) \<longrightarrow> fst x = h"
      by (auto simp: room_inv_def)
    with False show ?thesis
      by (intro disjI2 exI [of _ h] exI [of _ ph]) (auto simp: host set' new_player_def)
  qed
  from d ids conf hostpart show ?thesis
    by (simp add: room_inv_def)
qed

lemma onMessage_room_inv:
  assumes "room_inv (state srv)"
  shows "room_inv (state (fst (onMessage raw sender e srv)))"
proof -
  have conf: "\<forall>key \<in> set roleKeys. 0 \<le> roleConfig (state (fst (onMessage raw sender e srv))) key \<and>
      roleConfig (state (fst (onMessage raw sender e srv))) key \<le> 99"
    using onMessage_roleConfig_cases [of raw sender e srv] assms
    by (auto simp: room_inv_def)
  from onMessage_players_cases [of srv raw sender e] show ?thesis
  proof (elim disjE exE conjE)
    assume same: "same_participants (players (state srv)) (players (state (fst (onMessage raw sender e srv))))"
      and host: "hostId (state (fst (onMessage raw sender e srv))) = hostId (state srv)"
    show ?thesis by (rule room_inv_same [OF assms same host conf])
  next
    fix c
    assume c: "c \<noteq> []" "c \<notin> fst ` set (players (state srv))"
      and ps: "players (state (fst (onMessage raw sender e srv))) =
          obj_set c (new_player c e (players (state srv) = [])) (players (state srv))"
      and host: "hostId (state (fst (onMessage raw sender e srv))) =
          (if players (state srv) = [] then Some c else hostId (state srv))"
    show ?thesis by (rule room_inv_new [OF assms c ps host conf])
  qed
qed

lemma step_state:
  "state (fst (onConnect conn srv)) = state srv"
  "state (onClose conn srv) = state srv"
  by (simp_all add: onConnect_def onClose_def Let_def split: option.splits)

lemma step_room_inv: "room_inv (state srv) \<Longrightarrow> room_inv (state (step srv ev))"
  by (cases ev) (simp_all add: step_state onMessage_room_inv)

lemma run_snoc: "run room (evs @ [ev]) = step (run room evs) ev"
  by (simp add: run_def)

lemma run_append: "run room (evs @ evs') = foldl step (run room evs) evs'"
  by (simp add: run_def)

lemma run_room_inv: "room_inv (state (run room evs))"
proof (induction evs rule: rev_induct)
  case Nil
  show ?case
    by (simp add: run_def constructor_def room_inv_def defaultRoleConfig_def)
next
  case (snoc ev evs)
  then show ?case by (simp add: run_snoc step_room_inv)
qed

subsection \<open>The projection\<close>

lemma map_of_foldl_obj_set:
  "distinct (map fst ps) \<Longrightarrow>
   map_of (foldl (\<lambda>acc (k, p). obj_set k (f k p) acc) [] ps) k = map_option (f k) (map_of ps k)"
proof (induction ps rule: rev_induct)
  case Nil
  show ?case by simp
next
  case (snoc x ps)
  obtain k1 p1 where x: "x = (k1, p1)" by (cases x)
  from snoc.prems have d: "distinct (map fst ps)" and new: "k1 \<notin> fst ` set ps"
    by (simp_all add: x)
  from new have none: "map_of ps k1 = None"
    by (simp add: map_of_eq_None_iff)
  show ?case
    using snoc.IH [OF d] none
    by (cases "map_of ps k") (auto simp: x map_of_obj_set map_add_def)
qed

lemma personalizeStateFor_player:
  assumes "distinct (map fst (players s))" and "map_of (players s) p = Some pl"
  shows "obj_get (players (personalizeStateFor s v)) p =
           Own (if v = None \<or> v = Some [] \<or> Some p \<noteq> v then pl\<lparr>roleKey := None\<rparr> else pl)"
  using assms
  by (simp add: personalizeStateFor_def obj_get_def map_of_foldl_obj_set)

subsection \<open>The host\<close>

lemma clock_append: "clock (xs @ ys) = clock xs @ clock ys"
  by (induction xs rule: clock.induct) simp_all

lemma clock_inv_mono: "clock_inv s t \<Longrightarrow> t \<le> t' \<Longrightarrow> clock_inv s t'"
  by (fastforce simp: clock_inv_def)

lemma one_host_filter:
  "distinct (map fst ps) \<Longrightarrow> (h, ph) \<in> set ps \<Longrightarrow> isHost ph \<Longrightarrow>
   (\<forall>x \<in> set ps. isHost (snd x) \<longrightarrow> fst x = h) \<Longrightarrow>
   filter (\<lambda>x. isHost (snd x)) ps = [(h, ph)]"
proof (induction ps)
  case Nil
  then show ?case by simp
next
  case (Cons x ps)
  show ?case
  proof (cases "x = (h, ph)")
    case True
    with Cons.prems have "h \<notin> fst ` set ps" by simp
    with Cons.prems(4) have "\<forall>y \<in> set ps. \<not> isHost (snd y)"
      by (metis image_eqI list.set_intros(2))
    then have "filter (\<lambda>x. isHost (snd x)) ps = []"
      by (simp add: filter_empty_conv)
    with True Cons.prems(3) show ?thesis by simp
  next
    case False
    with Cons.prems have in_ps: "(h, ph) \<in> set ps" by simp
    then have "h \<in> fst ` set ps" by force
    with Cons.prems(1) have "fst x \<noteq> h" by auto
    with Cons.prems(4) have "\<not> isHost (snd x)" by auto
    moreover have "filter (\<lambda>x. isHost (snd x)) ps = [(h, ph)]"
      using Cons.prems by (intro Cons.IH in_ps) simp_all
    ultimately show ?thesis by simp
  qed
qed

lemma clock_inv_same:
  assumes ci: "clock_inv s t"
    and same: "same_participants (players s) (players s')"
    and host: "hostId s' = hostId s"
  shows "clock_inv s' t"
proof -
  have bwd: "\<And>x. x \<in> set (players s') \<Longrightarrow>
      \<exists>p. (fst x, p) \<in> set (players s) \<and> joinedAt (snd x) = joinedAt p"
    using same_participants_set [OF same] by (fastforce simp: same_identity_def)
  show ?thesis
    unfolding clock_inv_def
  proof (intro conjI ballI allI impI)
    fix x assume "x \<in> set (players s')"
    from bwd [OF this] ci show "joinedAt (snd x) \<le> t"
      by (fastforce simp: clock_inv_def)
  next
    fix h ph x
    assume h: "hostId s' = Some h \<and> (h, ph) \<in> set (players s')" and x: "x \<in> set (players s')"
    from h bwd [of "(h, ph)"] obtain ph0 where ph0: "(h, ph0) \<in> set (players s)" "joinedAt ph = joinedAt ph0"
      by auto
    from bwd [OF x] obtain p where p: "(fst x, p) \<in> set (players s)" "joinedAt (snd x) = joinedAt p"
      by auto
    from h host have hs: "hostId s = Some h" by simp
    from ci hs ph0(1) have "\<forall>y \<in> set (players s). joinedAt ph0 \<le> joinedAt (snd y)"
      unfolding clock_inv_def by blast
    with p(1) have "joinedAt ph0 \<le> joinedAt p" by force
    with ph0(2) p(2) show "joinedAt ph \<le> joinedAt (snd x)" by simp
  qed
qed

lemma clock_inv_new:
  assumes inv: "room_inv s" and ci: "clock_inv s t" and t: "t \<le> now e"
    and c: "c \<notin> fst ` set (players s)"
    and ps: "players s' = obj_set c (new_player c e (players s = [])) (players s)"
    and host: "hostId s' = (if players s = [] then Some c else hostId s)"
  shows "clock_inv s' (now e)"
proof -
  have set': "set (players s') = insert (c, new_player c e (players s = [])) (set (players s))"
    using c by (simp add: ps set_obj_set_new)
  have new_t: "joinedAt (new_player c e (players s = [])) = now e"
    by (simp add: new_player_def)
  show ?thesis
  proof (cases "players s = []")
    case True
    then show ?thesis
      by (auto simp: clock_inv_def set' new_player_def)
  next
    case False
    with inv obtain h0 ph0 where h0: "hostId s = Some h0" "(h0, ph0) \<in> set (players s)"
      by (auto simp: room_inv_def)
    then have "h0 \<noteq> c" using c by force
    show ?thesis
      unfolding clock_inv_def
    proof (intro conjI ballI allI impI)
      fix x assume "x \<in> set (players s')"
      with ci t show "joinedAt (snd x) \<le> now e"
        by (fastforce simp: clock_inv_def set' new_t)
    next
      fix h ph x
      assume h: "hostId s' = Some h \<and> (h, ph) \<in> set (players s')" and x: "x \<in> set (players s')"
      from h False host h0(1) \<open>h0 \<noteq> c\<close> have hp: "hostId s = Some h" "(h, ph) \<in> set (players s)"
        by (auto simp: set')
      from x show "joinedAt ph \<le> joinedAt (snd x)"
        unfolding set'
      proof
        assume "x = (c, new_player c e (players s = []))"
        moreover from ci hp(2) have "joinedAt ph \<le> t" by (fastforce simp: clock_inv_def)
        ultimately show ?thesis using t by (simp add: new_t)
      next
        assume "x \<in> set (players s)"
        with ci hp show ?thesis by (fastforce simp: clock_inv_def)
      qed
    qed
  qed
qed

lemma onMessage_clock_inv:
  assumes inv: "room_inv (state srv)" and ci: "clock_inv (state srv) t" and t: "t \<le> now e"
  shows "clock_inv (state (fst (onMessage raw sender e srv))) (now e)"
  using onMessage_players_cases [of srv raw sender e]
proof (elim disjE exE conjE)
  assume same: "same_participants (players (state srv)) (players (state (fst (onMessage raw sender e srv))))"
    and host: "hostId (state (fst (onMessage raw sender e srv))) = hostId (state srv)"
  from clock_inv_same [OF ci same host] t show ?thesis by (rule clock_inv_mono)
next
  fix c
  assume c: "c \<notin> fst ` set (players (state srv))"
    and ps: "players (state (fst (onMessage raw sender e srv))) =
          obj_set c (new_player c e (players (state srv) = [])) (players (state srv))"
    and host: "hostId (state (fst (onMessage raw sender e srv))) =
          (if players (state srv) = [] then Some c else hostId (state srv))"
  show ?thesis by (rule clock_inv_new [OF inv ci t c ps host])
qed

lemma run_clock_inv:
  "sorted (clock evs) \<Longrightarrow> \<forall>x \<in> set (clock evs). x \<le> t \<Longrightarrow> clock_inv (state (run room evs)) t"
proof (induction evs arbitrary: t rule: rev_induct)
  case Nil
  show ?case by (simp add: run_def constructor_def clock_inv_def)
next
  case (snoc ev evs)
  show ?case
  proof (cases ev)
    case (Message raw sender e)
    from snoc.prems have s: "sorted (clock evs)" and le: "\<forall>x \<in> set (clock evs). x \<le> now e"
      and t: "now e \<le> t"
      by (simp_all add: Message clock_append sorted_append)
    from snoc.IH [OF s le] have "clock_inv (state (run room evs)) (now e)" .
    from onMessage_clock_inv [OF run_room_inv this order_refl]
    have "clock_inv (state (run room (evs @ [ev]))) (now e)"
      by (simp add: run_snoc Message)
    then show ?thesis using t by (rule clock_inv_mono)
  next
    case (Connect conn)
    with snoc show ?thesis by (simp add: run_snoc step_state clock_append)
  next
    case (Close conn)
    with snoc show ?thesis by (simp add: run_snoc step_state clock_append)
  qed
qed

lemma step_players_cases:
  "(same_participants (players (state srv)) (players (state (step srv ev))) \<and>
    hostId (state (step srv ev)) = hostId (state srv)) \<or>
   (\<exists>c e. c \<notin> fst ` set (players (state srv)) \<and>
        players (state (step srv ev)) =
          obj_set c (new_player c e (players (state srv) = [])) (players (state srv)) \<and>
        hostId (state (step srv ev)) =
          (if players (state srv) = [] then Some c else hostId (state srv)))"
proof (cases ev)
  case (Message raw sender e)
  from onMessage_players_cases [of srv raw sender e] show ?thesis
  proof (elim disjE exE conjE)
    assume "same_participants (players (state srv)) (players (state (fst (onMessage raw sender e srv))))"
      "hostId (state (fst (onMessage raw sender e srv))) = hostId (state srv)"
    then show ?thesis by (intro disjI1) (simp add: Message)
  next
    fix c
    assume "c \<notin> fst ` set (players (state srv))"
      "players (state (fst (onMessage raw sender e srv))) =
          obj_set c (new_player c e (players (state srv) = [])) (players (state srv))"
      "hostId (state (fst (onMessage raw sender e srv))) =
          (if players (state srv) = [] then Some c else hostId (state srv))"
    then show ?thesis by (intro disjI2 exI [of _ c] exI [of _ e]) (simp add: Message)
  qed
qed (simp_all add: step_state same_participants_refl)

lemma first_created:
  "players (state (run room evs)) \<noteq> [] \<Longrightarrow>
   \<exists>pre ev post h ph0. evs = pre @ ev # post \<and> players (state (run room pre)) = [] \<and>
        players (state (run room (pre @ [ev]))) = [(h, ph0)] \<and>
        hostId (state (run room evs)) = Some h"
proof (induction evs rule: rev_induct)
  case Nil
  then show ?case by (simp add: run_def constructor_def)
next
  case (snoc ev evs)
  show ?case
  proof (cases "players (state (run room evs)) = []")
    case True
    from step_players_cases [of "run room evs" ev] snoc.prems True
    obtain c e where "players (state (run room (evs @ [ev]))) = [(c, new_player c e True)]"
      "hostId (state (run room (evs @ [ev]))) = Some c"
      by (auto simp: run_snoc same_participants_empty obj_set_empty)
    with True show ?thesis by blast
  next
    case False
    from snoc.IH [OF this] obtain pre ev0 post h ph0 where
      IH: "evs = pre @ ev0 # post" "players (state (run room pre)) = []"
        "players (state (run room (pre @ [ev0]))) = [(h, ph0)]"
        "hostId (state (run room evs)) = Some h"
      by blast
    from step_players_cases [of "run room evs" ev] False IH(4)
    have "hostId (state (run room (evs @ [ev]))) = Some h"
      by (auto simp: run_snoc)
    with IH(1-3) show ?thesis
      by (intro exI [of _ pre] exI [of _ ev0] exI [of _ "post @ [ev]"] exI [of _ h] exI [of _ ph0]) simp
  qed
qed

lemma join_then_present:
  assumes "clientMessageSchema parsed = Some (Join n c)" and "c \<notin> set object_prototype_keys"
  shows "\<exists>p. map_of (players (state (fst (onMessage (Some parsed) sender e srv)))) c = Some p"
proof -
  from assms(1) have "c \<noteq> []" using schema_Join_nonempty by blast
  then have "obj_get (players (state (fst (dispatch (Join n c) sender e srv)))) c \<noteq> Undefined"
    by (rule dispatch_Join_then_present)
  with assms show ?thesis
    by (auto simp: onMessage_parsed obj_get_def split: option.splits)
qed

lemma join_makes_room_nonempty:
  assumes "Message (Some parsed) sender e \<in> set evs"
    and "clientMessageSchema parsed = Some (Join n c)" and "c \<notin> set object_prototype_keys"
  shows "players (state (run room evs)) \<noteq> []"
proof -
  from assms(1) obtain pre post where evs: "evs = pre @ Message (Some parsed) sender e # post"
    by (auto dest: split_list)
  from join_then_present [OF assms(2,3), of sender e "run room pre"]
  obtain p where "map_of (players (state (run room (pre @ [Message (Some parsed) sender e])))) c = Some p"
    by (auto simp: run_snoc)
  from steps_keep_player [OF this, of post]
  obtain q where "map_of (players (state (run room evs))) c = Some q"
    by (auto simp: evs run_append [symmetric])
  then show ?thesis by auto
qed

subsection \<open>The deck and the deal\<close>

lemma length_shuffle_loop: "length (shuffle_loop rnd c i arr) = length arr"
  by (induction i arbitrary: c arr) (simp_all add: Let_def swap_def)

lemma length_shuffle: "length (shuffle xs rnd) = length xs"
  by (simp add: shuffle_def length_shuffle_loop)

lemma mset_swap': "i < length arr \<Longrightarrow> j < length arr \<Longrightarrow> mset (swap arr i j) = mset arr"
  unfolding swap_def using mset_swap [of j arr i] by simp

lemma mset_shuffle_loop:
  "\<forall>c. is_double (rnd c) \<and> 0 \<le> rnd c \<and> rnd c < 1 \<Longrightarrow> i < length arr \<Longrightarrow>
   mset (shuffle_loop rnd c i arr) = mset arr"
proof (induction i arbitrary: c arr)
  case 0
  show ?case by simp
next
  case (Suc i)
  let ?j = "nat \<lfloor>round_double (rnd c * of_nat (Suc i + 1))\<rfloor>"
  from Suc.prems(1) have "?j \<le> Suc i" by (intro shuffle_index) simp_all
  with Suc.prems(2) have j: "?j < length arr" by simp
  have "mset (shuffle_loop rnd (Suc c) i (swap arr (Suc i) ?j)) = mset (swap arr (Suc i) ?j)"
    using Suc.prems by (intro Suc.IH) (simp_all add: swap_def)
  also have "\<dots> = mset arr"
    using Suc.prems(2) j by (rule mset_swap')
  finally show ?case by (simp add: Let_def)
qed

lemma mset_shuffle:
  "\<forall>c. is_double (rnd c) \<and> 0 \<le> rnd c \<and> rnd c < 1 \<Longrightarrow> mset (shuffle xs rnd) = mset xs"
proof (cases xs)
  case Nil
  then show ?thesis by (simp add: shuffle_def)
next
  case (Cons x xs')
  assume "\<forall>c. is_double (rnd c) \<and> 0 \<le> rnd c \<and> rnd c < 1"
  then show ?thesis
    unfolding shuffle_def by (rule mset_shuffle_loop) (simp add: Cons)
qed

lemma length_buildDeck:
  "length (buildDeck config) = nat (config A) + nat (config B) + nat (config C) + nat (config D)"
  by (simp add: buildDeck_def roleKeys_def)

lemma totalRoles_sum: "totalRoles config = config A + config B + config C + config D"
  by (simp add: totalRoles_def roleKeys_def)

lemma length_buildDeck_total:
  "\<forall>key \<in> set roleKeys. 0 \<le> config key \<Longrightarrow> int (length (buildDeck config)) = totalRoles config"
  by (simp add: length_buildDeck totalRoles_sum roleKeys_def)

lemma set_buildDeck: "key \<in> set (buildDeck config) \<longleftrightarrow> 0 < config key"
  by (cases key) (auto simp: buildDeck_def roleKeys_def)

lemma deal_other:
  "k \<notin> fst ` set ord \<Longrightarrow> map_of (deal ord i shuffled ps) k = map_of ps k"
  by (induction ord i shuffled ps rule: deal.induct) (auto simp: map_of_obj_upd)

lemma deal_nth:
  "distinct (map fst ord) \<Longrightarrow> j < length ord \<Longrightarrow>
   map_of (deal ord i shuffled ps) (fst (ord ! j)) =
     map_option (\<lambda>p. p\<lparr>roleKey := nth_opt shuffled (i + j)\<rparr>) (map_of ps (fst (ord ! j)))"
proof (induction ord i shuffled ps arbitrary: j rule: deal.induct)
  case (1 i shuffled ps)
  then show ?case by simp
next
  case (2 k p0 rest i shuffled ps)
  show ?case
  proof (cases j)
    case 0
    from "2.prems"(1) have "k \<notin> fst ` set rest" by simp
    then show ?thesis
      by (simp add: 0 deal_other map_of_obj_upd)
  next
    case (Suc j')
    with "2.prems" have j': "j' < length rest" and d: "distinct (map fst rest)" by simp_all
    from j' have "fst (rest ! j') \<in> fst ` set rest" by simp
    with "2.prems"(1) have "fst (rest ! j') \<noteq> k" by auto
    with "2.IH" [OF d j'] show ?thesis
      by (simp add: Suc map_of_obj_upd)
  qed
qed

lemma distinct_keys_sort_key:
  "distinct (map fst (sort_key f ps)) = distinct (map fst ps)"
proof -
  have "mset (map fst (sort_key f ps)) = mset (map fst ps)" by simp
  then show ?thesis by (rule mset_eq_imp_distinct_iff)
qed

lemma run_assigned:
  "run ''room'' (sample_history @ [Message (Some (plain_msg ''assignRoles'')) ''c1'' (env_at 500)]) =
     sample_assigned"
  by (simp add: run_snoc run_sample assign_sample)

subsection \<open>The host of a room with participants\<close>

text \<open>
  After any history (joins, and any other events): a \<open>join\<close> that passed the
  schema with a client id that is not a member name of \<open>Object.prototype\<close> leaves the
  room with participants; and in a room with participants exactly one of them has
  \<open>isHost\<close> set, \<open>hostId\<close> is its key and its id, it is the participant created by the
  event that first made the room non-empty (with every field but \<open>roleKey\<close> as created),
  and, when the clock never went back, nobody has a smaller \<open>joinedAt\<close>.
\<close>

lemma one_host_first_created:
  "(Message (Some parsed) sender e \<in> set evs \<and> clientMessageSchema parsed = Some (Join n c) \<and>
    c \<notin> set object_prototype_keys \<longrightarrow> players (state (run room evs)) \<noteq> []) \<and>
   (players (state (run room evs)) \<noteq> [] \<longrightarrow>
     (\<exists>h ph. filter (\<lambda>x. isHost (snd x)) (players (state (run room evs))) = [(h, ph)] \<and>
        hostId (state (run room evs)) = Some h \<and> id' ph = h \<and>
        (sorted (clock evs) \<longrightarrow>
           (\<forall>x \<in> set (players (state (run room evs))). joinedAt ph \<le> joinedAt (snd x))) \<and>
        (\<exists>pre ev post ph0. evs = pre @ ev # post \<and> players (state (run room pre)) = [] \<and>
           players (state (run room (pre @ [ev]))) = [(h, ph0)] \<and> same_identity ph0 ph)))"
proof (intro conjI impI)
  assume "Message (Some parsed) sender e \<in> set evs \<and> clientMessageSchema parsed = Some (Join n c) \<and>
    c \<notin> set object_prototype_keys"
  then show "players (state (run room evs)) \<noteq> []"
    using join_makes_room_nonempty by blast
next
  let ?s = "state (run room evs)"
  assume nonempty: "players ?s \<noteq> []"
  have inv: "room_inv ?s" by (rule run_room_inv)
  then have d: "distinct (map fst (players ?s))" by (simp add: room_inv_def)
  from inv nonempty obtain h ph where h: "hostId ?s = Some h" "(h, ph) \<in> set (players ?s)"
    "isHost ph" "\<forall>x \<in> set (players ?s). isHost (snd x) \<longrightarrow> fst x = h"
    by (auto simp: room_inv_def)
  from d h(2-4) have one: "filter (\<lambda>x. isHost (snd x)) (players ?s) = [(h, ph)]"
    by (rule one_host_filter)
  from inv h(2) have ident: "id' ph = h"
    by (fastforce simp: room_inv_def)
  have minimum: "sorted (clock evs) \<longrightarrow> (\<forall>x \<in> set (players ?s). joinedAt ph \<le> joinedAt (snd x))"
  proof
    assume "sorted (clock evs)"
    then have "clock_inv ?s (Max (insert 0 (set (clock evs))))"
      by (rule run_clock_inv) simp
    with h(1,2) show "\<forall>x \<in> set (players ?s). joinedAt ph \<le> joinedAt (snd x)"
      unfolding clock_inv_def by blast
  qed
  from first_created [OF nonempty] h(1) obtain pre ev post ph0 where
    fc: "evs = pre @ ev # post" "players (state (run room pre)) = []"
      "players (state (run room (pre @ [ev]))) = [(h, ph0)]"
    by auto
  from fc(3) have "map_of (players (state (run room (pre @ [ev])))) h = Some ph0" by simp
  from steps_keep_player [OF this, of post]
  obtain q where "map_of (players ?s) h = Some q" "same_identity ph0 q"
    by (auto simp: fc(1) run_append [symmetric])
  with d h(2) have "same_identity ph0 ph" by simp
  with fc have "\<exists>pre ev post ph0. evs = pre @ ev # post \<and> players (state (run room pre)) = [] \<and>
           players (state (run room (pre @ [ev]))) = [(h, ph0)] \<and> same_identity ph0 ph"
    by blast
  with one h(1) ident minimum
  show "\<exists>h ph. filter (\<lambda>x. isHost (snd x)) (players ?s) = [(h, ph)] \<and>
        hostId ?s = Some h \<and> id' ph = h \<and>
        (sorted (clock evs) \<longrightarrow> (\<forall>x \<in> set (players ?s). joinedAt ph \<le> joinedAt (snd x))) \<and>
        (\<exists>pre ev post ph0. evs = pre @ ev # post \<and> players (state (run room pre)) = [] \<and>
           players (state (run room (pre @ [ev]))) = [(h, ph0)] \<and> same_identity ph0 ph)"
    by blast
qed

lemma one_host_first_created_sample:
  "\<exists>ph. filter (\<lambda>x. isHost (snd x)) (players (state (run ''room'' sample_history))) = [(''alice'', ph)] \<and>
        id' ph = ''alice''"
proof -
  have n: "players (state (run ''room'' sample_history)) \<noteq> []"
    by (simp add: run_sample sample_lobby_def sample_players_def)
  have host: "hostId (state (run ''room'' sample_history)) = Some ''alice''"
    by (simp add: run_sample sample_lobby_def)
  from one_host_first_created [where room = "''room''" and evs = sample_history, THEN conjunct2, THEN mp, OF n]
    host
  show ?thesis by auto
qed

section \<open>The claims\<close>

text \<open>
  C1. In the room state after any history, for every participant \<open>p\<close> and every viewer
  \<open>v\<close> (\<open>None\<close> is the caller not yet identified): the projection for \<open>v\<close> holds
  \<open>p\<close>, with an empty \<open>roleKey\<close> when \<open>p\<close> is not the viewer, with the true \<open>roleKey\<close>
  when \<open>p\<close> is the viewer, with an empty \<open>roleKey\<close> when there is no viewer, and with
  every other field as in the room state.
\<close>

theorem personalizeStateFor_redacts:
  assumes "map_of (players (state (run room evs))) p = Some pl"
  shows "\<exists>q. obj_get (players (personalizeStateFor (state (run room evs)) v)) p = Own q \<and>
             (v \<noteq> Some p \<longrightarrow> roleKey q = None) \<and>
             (v = Some p \<longrightarrow> roleKey q = roleKey pl) \<and>
             (v = None \<longrightarrow> roleKey q = None) \<and>
             same_identity pl q"
proof -
  have inv: "room_inv (state (run room evs))" by (rule run_room_inv)
  then have d: "distinct (map fst (players (state (run room evs))))"
    by (simp add: room_inv_def)
  from assms have "(p, pl) \<in> set (players (state (run room evs)))"
    by (rule map_of_SomeD)
  with inv have "p \<noteq> []"
    by (fastforce simp: room_inv_def)
  then show ?thesis
    by (simp add: personalizeStateFor_player [OF d assms] same_identity_def)
qed

theorem personalizeStateFor_redacts_witness:
  "(\<exists>q. obj_get (players (personalizeStateFor
            (state (run ''room'' (sample_history @
               [Message (Some (plain_msg ''assignRoles'')) ''c1'' (env_at 500)])))
            (Some ''alice''))) ''alice'' = Own q \<and> roleKey q = Some B) \<and>
   (\<exists>q. obj_get (players (personalizeStateFor
            (state (run ''room'' (sample_history @
               [Message (Some (plain_msg ''assignRoles'')) ''c1'' (env_at 500)])))
            (Some ''bob''))) ''alice'' = Own q \<and> roleKey q = None)"
proof -
  have h: "map_of (players (state (run ''room'' (sample_history @
               [Message (Some (plain_msg ''assignRoles'')) ''c1'' (env_at 500)])))) ''alice'' =
      Some \<lparr>id' = ''alice'', name = ''agnes abbott'', ready = None, isHost = True,
            joinedAt = 100, roleKey = Some B\<rparr>"
    by (simp add: run_assigned sample_assigned_def)
  from personalizeStateFor_redacts [OF h, of "Some ''alice''"]
    personalizeStateFor_redacts [OF h, of "Some ''bob''"]
  show ?thesis by auto
qed

text \<open>
  C2. In the room after any history, \<open>assignRoles\<close> sent over a connection bound to
  the host: if the deck built from the quotas has not as many cards as there are
  participants, the sender alone receives the quota error and the server is unchanged.
  If the quotas sum to the number of participants (and the random source returns
  doubles in \<open>[0, 1)\<close>, its contract), the new state is broadcast with status \<open>Assigned\<close> and \<open>assignedAt\<close> the
  clock; the participants are the same; \<open>ordered\<close>, the participants sorted by ascending
  \<open>joinedAt\<close>, and \<open>shuffled\<close>, a permutation of the deck, have the same length; and
  the \<open>i\<close>-th participant of \<open>ordered\<close> now holds the \<open>i\<close>-th card of \<open>shuffled\<close>, a
  role whose quota is positive.
\<close>

theorem assignRoles_deals:
  assumes "clientMessageSchema parsed = Some AssignRoles"
    and "bound_to_host (run room evs) sender"
  shows "(length (buildDeck (roleConfig (state (run room evs)))) \<noteq> length (players (state (run room evs))) \<longrightarrow>
            onMessage (Some parsed) sender e (run room evs) =
              (run room evs, [(sender, ErrorMsg ''role count must equal number of players'')])) \<and>
         (totalRoles (roleConfig (state (run room evs))) = int (length (players (state (run room evs)))) \<and>
          (\<forall>c. is_double (rng e c) \<and> 0 \<le> rng e c \<and> rng e c < 1) \<longrightarrow>
            (let srv = run room evs;
                 srv' = fst (onMessage (Some parsed) sender e srv);
                 ordered = sort_key (\<lambda>(k, p). joinedAt p) (players (state srv));
                 shuffled = shuffle (buildDeck (roleConfig (state srv))) (rng e)
             in snd (onMessage (Some parsed) sender e srv) = broadcastState srv' \<and>
                status (state srv') = Assigned \<and> assignedAt (state srv') = Some (now e) \<and>
                same_participants (players (state srv)) (players (state srv')) \<and>
                mset ordered = mset (players (state srv)) \<and>
                sorted (map (\<lambda>(k, p). joinedAt p) ordered) \<and>
                mset shuffled = mset (buildDeck (roleConfig (state srv))) \<and>
                length shuffled = length ordered \<and>
                (\<forall>i < length ordered.
                   map_of (players (state srv')) (fst (ordered ! i)) =
                     Some ((snd (ordered ! i))\<lparr>roleKey := Some (shuffled ! i)\<rparr>) \<and>
                   0 < roleConfig (state srv) (shuffled ! i))))"
proof (intro conjI impI)
  let ?srv = "run room evs"
  let ?s = "state ?srv"
  from assms(2) have host: "\<not> not_host (fst (getSenderPlayer ?srv sender))"
    by (simp add: bound_to_host_iff)
  {
    assume "length (buildDeck (roleConfig ?s)) \<noteq> length (players ?s)"
    with assms(1) host
    show "onMessage (Some parsed) sender e ?srv =
              (?srv, [(sender, ErrorMsg ''role count must equal number of players'')])"
      by (simp add: onMessage_parsed dispatch_AssignRoles)
  }
  assume b: "totalRoles (roleConfig ?s) = int (length (players ?s)) \<and>
    (\<forall>c. is_double (rng e c) \<and> 0 \<le> rng e c \<and> rng e c < 1)"
  let ?ordered = "sort_key (\<lambda>(k, p). joinedAt p) (players ?s)"
  let ?deck = "buildDeck (roleConfig ?s)"
  let ?shuffled = "shuffle ?deck (rng e)"
  let ?srv' = "?srv\<lparr>state := ?s\<lparr>players := deal ?ordered 0 ?shuffled (players ?s),
                                    status := Assigned, assignedAt := Some (now e)\<rparr>\<rparr>"
  have inv: "room_inv ?s" by (rule run_room_inv)
  then have d: "distinct (map fst (players ?s))"
    and conf: "\<forall>key \<in> set roleKeys. 0 \<le> roleConfig ?s key"
    by (simp_all add: room_inv_def)
  from conf b have len: "length ?deck = length (players ?s)"
    using length_buildDeck_total [of "roleConfig ?s"] by simp
  with assms(1) host have res: "onMessage (Some parsed) sender e ?srv = (?srv', broadcastState ?srv')"
    by (simp add: onMessage_parsed dispatch_AssignRoles)
  from b have ms: "mset ?shuffled = mset ?deck"
    by (intro mset_shuffle) simp
  have ls: "length ?shuffled = length ?ordered"
    by (simp add: length_shuffle len)
  have dord: "distinct (map fst ?ordered)"
    using d by (simp add: distinct_keys_sort_key)
  have each: "\<forall>i < length ?ordered.
      map_of (players (state ?srv')) (fst (?ordered ! i)) =
        Some ((snd (?ordered ! i))\<lparr>roleKey := Some (?shuffled ! i)\<rparr>) \<and>
      0 < roleConfig ?s (?shuffled ! i)"
  proof (intro allI impI conjI)
    fix i assume i: "i < length ?ordered"
    then have "?ordered ! i \<in> set ?ordered" by (rule nth_mem)
    then have "(fst (?ordered ! i), snd (?ordered ! i)) \<in> set (players ?s)" by simp
    with d have look: "map_of (players ?s) (fst (?ordered ! i)) = Some (snd (?ordered ! i))"
      by (rule map_of_is_SomeI)
    from i ls have "nth_opt ?shuffled i = Some (?shuffled ! i)"
      by (simp add: nth_opt_def)
    with deal_nth [OF dord i, of 0 ?shuffled "players ?s"] look
    show "map_of (players (state ?srv')) (fst (?ordered ! i)) =
        Some ((snd (?ordered ! i))\<lparr>roleKey := Some (?shuffled ! i)\<rparr>)"
      by simp
    from i ls have "?shuffled ! i \<in> set ?shuffled" by simp
    also have "set ?shuffled = set ?deck"
      using ms by (rule mset_eq_setD)
    finally show "0 < roleConfig ?s (?shuffled ! i)"
      by (simp add: set_buildDeck)
  qed
  show "let srv = run room evs;
            srv' = fst (onMessage (Some parsed) sender e srv);
            ordered = sort_key (\<lambda>(k, p). joinedAt p) (players (state srv));
            shuffled = shuffle (buildDeck (roleConfig (state srv))) (rng e)
        in snd (onMessage (Some parsed) sender e srv) = broadcastState srv' \<and>
           status (state srv') = Assigned \<and> assignedAt (state srv') = Some (now e) \<and>
           same_participants (players (state srv)) (players (state srv')) \<and>
           mset ordered = mset (players (state srv)) \<and>
           sorted (map (\<lambda>(k, p). joinedAt p) ordered) \<and>
           mset shuffled = mset (buildDeck (roleConfig (state srv))) \<and>
           length shuffled = length ordered \<and>
           (\<forall>i < length ordered.
              map_of (players (state srv')) (fst (ordered ! i)) =
                Some ((snd (ordered ! i))\<lparr>roleKey := Some (shuffled ! i)\<rparr>) \<and>
              0 < roleConfig (state srv) (shuffled ! i))"
    unfolding Let_def res
    using ms ls each by (simp add: same_participants_deal)
qed

theorem assignRoles_deals_witness:
  "status (state (fst (onMessage (Some (plain_msg ''assignRoles'')) ''c1'' (env_at 500)
      (run ''room'' sample_history)))) = Assigned \<and>
   same_participants (players (state (run ''room'' sample_history)))
     (players (state (fst (onMessage (Some (plain_msg ''assignRoles'')) ''c1'' (env_at 500)
        (run ''room'' sample_history)))))"
proof -
  have h: "bound_to_host (run ''room'' sample_history) ''c1''"
    by (simp add: run_sample sample_host)
  have t: "totalRoles (roleConfig (state (run ''room'' sample_history))) =
      int (length (players (state (run ''room'' sample_history))))"
    by (simp add: run_sample sample_lobby_def sample_players_def totalRoles_def roleKeys_def
        defaultRoleConfig_def)
  have r: "\<forall>c. is_double (rng (env_at 500) c) \<and> 0 \<le> rng (env_at 500) c \<and> rng (env_at 500) c < 1"
    by (simp add: env_at_def is_double_0)
  from assignRoles_deals [OF schema_plain(1) h, of "env_at 500", THEN conjunct2, THEN mp, OF conjI [OF t r]]
  show ?thesis by (simp add: Let_def)
qed

text \<open>
  C3 fails on the code. In a fresh room a client connects and sends a \<open>join\<close> whose
  client id is \<open>constructor\<close>. The message passes the schema; the lookup
  \<open>players[clientId]\<close> finds the member of \<open>Object.prototype\<close> of that name, which is
  truthy, so the \<open>join\<close> case takes the participant for an existing one: the connection
  is bound to the id, but no participant is created and \<open>hostId\<close> stays empty. After
  this sequence of joins no participant has \<open>isHost\<close> set.
\<close>

theorem join_with_inherited_id_creates_nobody:
  "clientMessageSchema (join_msg ''Al'' ''constructor'') = Some (Join ''Al'' ''constructor'') \<and>
   connectionIdToClientId (run ''room'' inherited_id_history) ''c1'' = Some ''constructor'' \<and>
   players (state (run ''room'' inherited_id_history)) = [] \<and>
   hostId (state (run ''room'' inherited_id_history)) = None \<and>
   filter (\<lambda>x. isHost (snd x)) (players (state (run ''room'' inherited_id_history))) = []"
  by (simp add: run_def inherited_id_history_def sample_defs eval_defs constructor_def)

text \<open>
  C4, as the code has it. A \<open>setRoleCount\<close> message whose count is not an integer in
  \<open>[0, 99]\<close> does not pass the message schema: the sender alone receives
  \<open>invalid message\<close> and nothing changes. A count that passes the schema is already in
  \<open>[0, 99]\<close>, so for a host the quota of the role becomes exactly that count (the clamp
  of the handler changes nothing) and the state is broadcast.
\<close>

theorem setRoleCount_checked_by_schema:
  "(map_of props ''type'' = Some (JStr ''setRoleCount'') \<and>
    map_of props ''count'' = Some (JNum r) \<and> \<not> (r = of_int \<lfloor>r\<rfloor> \<and> 0 \<le> r \<and> r \<le> 99) \<longrightarrow>
      onMessage (Some (JObj props)) sender e srv = (srv, [(sender, ErrorMsg ''invalid message'')])) \<and>
   (clientMessageSchema parsed = Some (SetRoleCount k n) \<and> bound_to_host srv sender \<longrightarrow>
      0 \<le> n \<and> n \<le> 99 \<and>
      roleConfig (state (fst (onMessage (Some parsed) sender e srv))) k = n \<and>
      snd (onMessage (Some parsed) sender e srv) =
        broadcastState (fst (onMessage (Some parsed) sender e srv)))"
proof (intro conjI impI)
  assume "map_of props ''type'' = Some (JStr ''setRoleCount'') \<and>
    map_of props ''count'' = Some (JNum r) \<and> \<not> (r = of_int \<lfloor>r\<rfloor> \<and> 0 \<le> r \<and> r \<le> 99)"
  then have "clientMessageSchema (JObj props) = None"
    using schema_rejects_count [of props r] by blast
  then show "onMessage (Some (JObj props)) sender e srv = (srv, [(sender, ErrorMsg ''invalid message'')])"
    by (simp add: onMessage_def send_def)
next
  assume a: "clientMessageSchema parsed = Some (SetRoleCount k n) \<and> bound_to_host srv sender"
  then have range: "0 \<le> n \<and> n \<le> 99"
    using schema_SetRoleCount_range by blast
  from range show "0 \<le> n" and "n \<le> 99" by simp_all
  from a range show "roleConfig (state (fst (onMessage (Some parsed) sender e srv))) k = n"
    by (simp add: onMessage_parsed dispatch_SetRoleCount bound_to_host_iff)
  from a show "snd (onMessage (Some parsed) sender e srv) =
        broadcastState (fst (onMessage (Some parsed) sender e srv))"
    by (simp add: onMessage_parsed dispatch_SetRoleCount bound_to_host_iff)
qed

theorem setRoleCount_checked_by_schema_witness:
  "onMessage (Some (setRoleCount_msg ''A'' (-3))) ''c1'' (env_at 500) sample_lobby =
     (sample_lobby, [(''c1'', ErrorMsg ''invalid message'')]) \<and>
   roleConfig (state (fst (onMessage (Some (setRoleCount_msg ''C'' 7)) ''c1'' (env_at 500) sample_lobby))) C = 7"
proof -
  have p: "clientMessageSchema (setRoleCount_msg ''C'' 7) = Some (SetRoleCount C 7)"
    by (simp add: setRoleCount_msg_def clientMessageSchema_def roleKeySchema_def countSchema_def)
  show ?thesis
    using setRoleCount_checked_by_schema
      [of "[(''type'', JStr ''setRoleCount''), (''roleKey'', JStr ''A''), (''count'', JNum (-3))]"
          "-3" "''c1''" "env_at 500" sample_lobby "setRoleCount_msg ''C'' 7" C 7]
      p sample_host
    by (simp add: setRoleCount_msg_def)
qed

text \<open>
  C4, as the claim states it, fails: the host of the sample room sends
  \<open>setRoleCount\<close> for role \<open>A\<close> with count 150; the message is rejected as invalid and
  the quota of \<open>A\<close> does not become 99.
\<close>

theorem setRoleCount_150_rejected:
  "bound_to_host sample_lobby ''c1'' \<and>
   snd (onMessage (Some (setRoleCount_msg ''A'' 150)) ''c1'' (env_at 500) sample_lobby) =
     [(''c1'', ErrorMsg ''invalid message'')] \<and>
   roleConfig (state (fst (onMessage (Some (setRoleCount_msg ''A'' 150)) ''c1'' (env_at 500) sample_lobby))) A \<noteq> 99"
  by (simp add: bound_to_host_def sample_lobby_def sample_players_def setRoleCount_msg_def
      onMessage_def clientMessageSchema_def roleKeySchema_def countSchema_def send_def)

text \<open>
  C5, as the code has it. On a connection with no bound identity, \<open>setRoleCount\<close>,
  \<open>assignRoles\<close> and \<open>reset\<close> fail: the caller alone receives \<open>please join first\<close>
  followed by the host-only error of the command, and the server is unchanged.
  \<open>requestState\<close> is not an error there: the caller alone receives the state with
  every role redacted, and the server is unchanged.
\<close>

theorem unbound_connection:
  assumes "connectionIdToClientId srv sender = None"
  shows "(clientMessageSchema parsed = Some (SetRoleCount k n) \<longrightarrow>
            onMessage (Some parsed) sender e srv =
              (srv, [(sender, ErrorMsg ''please join first''),
                     (sender, ErrorMsg ''only host can edit roles'')])) \<and>
         (clientMessageSchema parsed = Some AssignRoles \<longrightarrow>
            onMessage (Some parsed) sender e srv =
              (srv, [(sender, ErrorMsg ''please join first''),
                     (sender, ErrorMsg ''only host can assign roles'')])) \<and>
         (clientMessageSchema parsed = Some Reset \<longrightarrow>
            onMessage (Some parsed) sender e srv =
              (srv, [(sender, ErrorMsg ''please join first''),
                     (sender, ErrorMsg ''only host can reset'')])) \<and>
         (clientMessageSchema parsed = Some RequestState \<longrightarrow>
            onMessage (Some parsed) sender e srv =
              (srv, [(sender, StateMsg (personalizeStateFor (state srv) None))]))"
  using assms
  by (simp add: onMessage_parsed dispatch_SetRoleCount dispatch_AssignRoles dispatch_Reset
      dispatch_other getSenderPlayer_unbound not_host_def sendStateTo_def send_def)

theorem unbound_connection_witness:
  "onMessage (Some (plain_msg ''reset'')) ''c3'' (env_at 500) sample_lobby =
     (sample_lobby, [(''c3'', ErrorMsg ''please join first''),
                     (''c3'', ErrorMsg ''only host can reset'')])"
proof -
  have u: "connectionIdToClientId sample_lobby ''c3'' = None"
    by (simp add: sample_lobby_def)
  have p: "clientMessageSchema (plain_msg ''reset'') = Some Reset"
    by (simp add: plain_msg_def clientMessageSchema_def)
  show ?thesis
    using unbound_connection [OF u, of "plain_msg ''reset''" A 0 "env_at 500"] p by simp
qed

text \<open>
  C5, as the claim states it, fails for \<open>requestState\<close>: sent over a connection of the
  sample room that has no bound identity, it is answered with a state message and no
  error.
\<close>

theorem requestState_unbound_no_error:
  "connectionIdToClientId sample_lobby ''c3'' = None \<and>
   snd (onMessage (Some (plain_msg ''requestState'')) ''c3'' (env_at 500) sample_lobby) =
     [(''c3'', StateMsg (personalizeStateFor (state sample_lobby) None))]"
  by (simp add: sample_lobby_def plain_msg_def onMessage_def clientMessageSchema_def
      dispatch_def sendStateTo_def send_def)

text \<open>
  C6. Whenever processing an inbound message sends an error message to anyone, the
  server (the room state and the bindings) is the same after as before, and every
  message sent while processing it goes to the sender: nothing is broadcast.
\<close>

theorem error_leaves_room_untouched:
  assumes "(c, ErrorMsg m) \<in> set (snd (onMessage raw sender e srv))"
  shows "fst (onMessage raw sender e srv) = srv \<and>
         (\<forall>x \<in> set (snd (onMessage raw sender e srv)). fst x = sender)"
proof (cases raw)
  case None
  then show ?thesis by (simp add: onMessage_def send_def)
next
  case (Some parsed)
  show ?thesis
  proof (cases "clientMessageSchema parsed")
    case None
    with Some show ?thesis by (simp add: onMessage_def send_def)
  next
    case (Some msg)
    with \<open>raw = Some parsed\<close> assms dispatch_error [of c m msg sender e srv]
    show ?thesis by (simp add: onMessage_def)
  qed
qed

theorem error_leaves_room_untouched_witness:
  "(''c2'', ErrorMsg ''only host can edit roles'')
     \<in> set (snd (onMessage (Some (setRoleCount_msg ''A'' 5)) ''c2'' (env_at 500) sample_lobby)) \<and>
   fst (onMessage (Some (setRoleCount_msg ''A'' 5)) ''c2'' (env_at 500) sample_lobby) = sample_lobby"
proof -
  have h: "(''c2'', ErrorMsg ''only host can edit roles'')
     \<in> set (snd (onMessage (Some (setRoleCount_msg ''A'' 5)) ''c2'' (env_at 500) sample_lobby))"
    by (simp add: sample_lobby_def sample_players_def sample_defs eval_defs)
  from error_leaves_room_untouched [OF h] h show ?thesis by blast
qed

text \<open>
  C7. A second \<open>join\<close> with the same client id leaves the room state exactly as the
  first one left it, whatever the sender, the clock, the name field and the status are:
  no participant is created and no field of any participant changes. More generally a
  \<open>join\<close> with the id of an existing participant leaves the room state unchanged.
\<close>

theorem rejoin_idempotent:
  assumes "clientMessageSchema j1 = Some (Join n1 c)"
    and "clientMessageSchema j2 = Some (Join n2 c)"
  shows "state (fst (onMessage (Some j2) sender2 e2 (fst (onMessage (Some j1) sender1 e1 srv)))) =
           state (fst (onMessage (Some j1) sender1 e1 srv)) \<and>
         (map_of (players (state srv)) c = Some p \<longrightarrow>
            state (fst (onMessage (Some j1) sender1 e1 srv)) = state srv)"
proof -
  from assms(1) have c: "c \<noteq> []" using schema_Join_nonempty by blast
  have "obj_get (players (state (fst (dispatch (Join n1 c) sender1 e1 srv)))) c \<noteq> Undefined"
    using c by (rule dispatch_Join_then_present)
  then have "state (fst (dispatch (Join n2 c) sender2 e2 (fst (dispatch (Join n1 c) sender1 e1 srv)))) =
      state (fst (dispatch (Join n1 c) sender1 e1 srv))"
    by (rule dispatch_Join_state_existing)
  moreover have "map_of (players (state srv)) c = Some p \<longrightarrow>
      state (fst (dispatch (Join n1 c) sender1 e1 srv)) = state srv"
    by (simp add: dispatch_Join_state_existing obj_get_def)
  ultimately show ?thesis
    using assms by (simp add: onMessage_parsed)
qed

theorem rejoin_idempotent_witness:
  "state (fst (onMessage (Some (join_msg ''Al'' ''carol'')) ''c1'' (env_at 700)
            (fst (onMessage (Some (join_msg ''Ca'' ''carol'')) ''c3'' (env_at 600) sample_lobby)))) =
   state (fst (onMessage (Some (join_msg ''Ca'' ''carol'')) ''c3'' (env_at 600) sample_lobby))"
proof -
  have p1: "clientMessageSchema (join_msg ''Ca'' ''carol'') = Some (Join ''Ca'' ''carol'')"
    by (simp add: schema_join)
  have p2: "clientMessageSchema (join_msg ''Al'' ''carol'') = Some (Join ''Al'' ''carol'')"
    by (simp add: schema_join)
  show ?thesis
    by (rule rejoin_idempotent [OF p1 p2, THEN conjunct1])
qed

text \<open>
  C8. In a room whose status is \<open>Assigned\<close>, a \<open>reset\<close> sent by the host sets the
  status to \<open>Lobby\<close>, clears \<open>assignedAt\<close> and the \<open>roleKey\<close> of every participant,
  and keeps the participants: the same keys in the same order, each with the same id,
  name, ready flag, host flag and \<open>joinedAt\<close>. \<open>hostId\<close> and the quotas are kept, and the
  new state is broadcast.
\<close>

theorem reset_round_trip:
  assumes "clientMessageSchema parsed = Some Reset"
    and "bound_to_host srv sender"
    and "status (state srv) = Assigned"
  shows "status (state (fst (onMessage (Some parsed) sender e srv))) = Lobby \<and>
         assignedAt (state (fst (onMessage (Some parsed) sender e srv))) = None \<and>
         (\<forall>x \<in> set (players (state (fst (onMessage (Some parsed) sender e srv)))). roleKey (snd x) = None) \<and>
         same_participants (players (state srv))
           (players (state (fst (onMessage (Some parsed) sender e srv)))) \<and>
         hostId (state (fst (onMessage (Some parsed) sender e srv))) = hostId (state srv) \<and>
         roleConfig (state (fst (onMessage (Some parsed) sender e srv))) = roleConfig (state srv) \<and>
         snd (onMessage (Some parsed) sender e srv) =
           broadcastState (fst (onMessage (Some parsed) sender e srv))"
  using assms(1,2)
  by (auto simp: onMessage_parsed dispatch_Reset bound_to_host_iff same_participants_reset)

theorem reset_round_trip_witness:
  "status (state (fst (onMessage (Some (plain_msg ''reset'')) ''c1'' (env_at 600) sample_assigned))) = Lobby \<and>
   same_participants (players (state sample_assigned))
     (players (state (fst (onMessage (Some (plain_msg ''reset'')) ''c1'' (env_at 600) sample_assigned))))"
proof -
  have s: "status (state sample_assigned) = Assigned"
    by (simp add: sample_assigned_def)
  from reset_round_trip [OF schema_plain(2) assigned_host s, of "env_at 600"]
  show ?thesis by blast
qed

text \<open>
  C9. The name field of a \<open>join\<close> message is ignored; the participant a \<open>join\<close>
  creates is named by \<open>generateOldTimeyName\<close>; whatever events follow, a participant
  stays in the room with the same name; \<open>setName\<close> and \<open>setReady\<close> messages pass the
  schema and are answered with \<open>unknown message type\<close> to the sender alone, the server
  unchanged.
\<close>

theorem names_server_owned:
  "dispatch (Join n1 c) sender e srv = dispatch (Join n2 c) sender e srv \<and>
   (clientMessageSchema parsed = Some (Join n c) \<and> map_of (players (state srv)) c = None \<and>
    map_of (players (state (fst (onMessage (Some parsed) sender e srv)))) c = Some p \<longrightarrow>
      name p = generateOldTimeyName (rng e)) \<and>
   (map_of (players (state srv)) k = Some q \<longrightarrow>
      (\<exists>q'. map_of (players (state (foldl step srv evs))) k = Some q' \<and> name q' = name q)) \<and>
   (clientMessageSchema parsed = Some (SetName n) \<or> clientMessageSchema parsed = Some (SetReady b) \<longrightarrow>
      onMessage (Some parsed) sender e srv = (srv, [(sender, ErrorMsg ''unknown message type'')])) \<and>
   (length n \<le> 64 \<longrightarrow>
      clientMessageSchema (JObj [(''type'', JStr ''setName''), (''name'', JStr n)]) = Some (SetName n)) \<and>
   clientMessageSchema (JObj [(''type'', JStr ''setReady''), (''ready'', JBool b)]) = Some (SetReady b)"
proof (intro conjI impI)
  show "dispatch (Join n1 c) sender e srv = dispatch (Join n2 c) sender e srv"
    by (rule dispatch_Join_name_ignored)
next
  assume "clientMessageSchema parsed = Some (Join n c) \<and> map_of (players (state srv)) c = None \<and>
    map_of (players (state (fst (onMessage (Some parsed) sender e srv)))) c = Some p"
  then have "p = new_player c e (players (state srv) = [])"
    using join_creates_named [of srv c n sender e p] by (auto simp: onMessage_parsed)
  then show "name p = generateOldTimeyName (rng e)"
    by (simp add: new_player_def)
next
  assume "map_of (players (state srv)) k = Some q"
  from steps_keep_player [OF this, of evs]
  show "\<exists>q'. map_of (players (state (foldl step srv evs))) k = Some q' \<and> name q' = name q"
    by (auto simp: same_identity_def)
next
  assume "clientMessageSchema parsed = Some (SetName n) \<or> clientMessageSchema parsed = Some (SetReady b)"
  then show "onMessage (Some parsed) sender e srv = (srv, [(sender, ErrorMsg ''unknown message type'')])"
    by (auto simp: onMessage_parsed dispatch_other)
next
  assume "length n \<le> 64"
  then show "clientMessageSchema (JObj [(''type'', JStr ''setName''), (''name'', JStr n)]) = Some (SetName n)"
    by (simp add: clientMessageSchema_def stringSchema_def)
next
  show "clientMessageSchema (JObj [(''type'', JStr ''setReady''), (''ready'', JBool b)]) = Some (SetReady b)"
    by (simp add: clientMessageSchema_def booleanSchema_def)
qed

theorem names_server_owned_witness:
  "\<exists>q'. map_of (players (state (foldl step sample_lobby
            [Message (Some (join_msg ''Eve'' ''alice'')) ''c2'' (env_at 900),
             Message (Some (plain_msg ''assignRoles'')) ''c1'' (env_at 950)]))) ''alice'' = Some q' \<and>
         name q' = ''agnes abbott''"
proof -
  have h: "map_of (players (state sample_lobby)) ''alice'' =
      Some \<lparr>id' = ''alice'', name = ''agnes abbott'', ready = None, isHost = True,
            joinedAt = 100, roleKey = None\<rparr>"
    by (simp add: sample_lobby_def sample_players_def)
  from names_server_owned
      [where srv = sample_lobby and k = "''alice''" and
        evs = "[Message (Some (join_msg ''Eve'' ''alice'')) ''c2'' (env_at 900),
                Message (Some (plain_msg ''assignRoles'')) ''c1'' (env_at 950)]",
        THEN conjunct2, THEN conjunct2, THEN conjunct1, THEN mp, OF h]
  show ?thesis by simp
qed

text \<open>
  C10. A \<open>reset\<close> sent by the host is accepted whatever the status is: the new state is
  broadcast, its status is \<open>Lobby\<close>, \<open>assignedAt\<close> and every \<open>roleKey\<close> are cleared,
  and the sender is still bound to the host. A second \<open>reset\<close> leaves the room state as
  the first one left it.
\<close>

theorem reset_idempotent:
  assumes "clientMessageSchema parsed = Some Reset"
    and "bound_to_host srv sender"
  shows "snd (onMessage (Some parsed) sender e srv) =
           broadcastState (fst (onMessage (Some parsed) sender e srv)) \<and>
         status (state (fst (onMessage (Some parsed) sender e srv))) = Lobby \<and>
         assignedAt (state (fst (onMessage (Some parsed) sender e srv))) = None \<and>
         (\<forall>x \<in> set (players (state (fst (onMessage (Some parsed) sender e srv)))). roleKey (snd x) = None) \<and>
         bound_to_host (fst (onMessage (Some parsed) sender e srv)) sender \<and>
         state (fst (onMessage (Some parsed) sender e' (fst (onMessage (Some parsed) sender e srv)))) =
           state (fst (onMessage (Some parsed) sender e srv))"
proof -
  let ?srv' = "srv\<lparr>state := (state srv)\<lparr>players := map (\<lambda>(k, p). (k, p\<lparr>roleKey := None\<rparr>)) (players (state srv)),
                                     status := Lobby, assignedAt := None\<rparr>\<rparr>"
  have first: "onMessage (Some parsed) sender e srv = (?srv', broadcastState ?srv')"
    using assms by (simp add: onMessage_parsed dispatch_Reset bound_to_host_iff)
  have host': "bound_to_host ?srv' sender"
    using assms(2) by (rule bound_to_host_players) (simp_all add: same_participants_reset)
  have second: "state (fst (onMessage (Some parsed) sender e' ?srv')) = state ?srv'"
    using assms(1) host'
    by (simp add: onMessage_parsed dispatch_Reset bound_to_host_iff reset_twice del: map_map)
  show ?thesis
    unfolding first using host' second by auto
qed

theorem reset_idempotent_witness:
  "status (state (fst (onMessage (Some (plain_msg ''reset'')) ''c1'' (env_at 600) sample_lobby))) = Lobby \<and>
   state (fst (onMessage (Some (plain_msg ''reset'')) ''c1'' (env_at 700)
            (fst (onMessage (Some (plain_msg ''reset'')) ''c1'' (env_at 600) sample_lobby)))) =
   state (fst (onMessage (Some (plain_msg ''reset'')) ''c1'' (env_at 600) sample_lobby))"
proof -
  from reset_idempotent [OF schema_plain(2) sample_host, of "env_at 600" "env_at 700"]
  show ?thesis by blast
qed

end
